theory Spec2Isabelle
  imports Main "HOL-Library.Word"
begin

unbundle bit_operations_syntax

section \<open>Record model\<close>

text \<open>
  Modelled from the spec: the declaration of \<^verbatim>\<open>alpm_pkg_meta_t\<close> (alpm_metadata.h) is
  not part of the sources at hand. The record has the fields that repoman.c reads, under
  the names the C code uses (\<^verbatim>\<open>size\<close> is \<open>size_pkg\<close> here, since \<open>size\<close> is a constant of
  HOL). The three integer fields are 64-bit: repoman.c prints them with \<^verbatim>\<open>%ld\<close>, two of
  them after a cast to \<^verbatim>\<open>long\<close>. C strings are character lists (without the final NUL),
  \<^verbatim>\<open>alpm_list_t\<close> of strings is a list of strings.
\<close>

record alpm_pkg_meta =
  filename :: string
  name :: string
  version :: string
  desc :: string
  url :: string
  packager :: string
  md5sum :: string
  sha256sum :: string
  arch :: string
  size_pkg :: "64 word"
  isize :: "64 word"
  builddate :: "64 word"
  license :: "string list"
  depends :: "string list"
  conflicts :: "string list"
  provides :: "string list"
  optdepends :: "string list"
  makedepends :: "string list"

section \<open>Formatted output\<close>

text \<open>
  The part of \<^verbatim>\<open>printf\<close> that repoman.c uses: the conversions \<^verbatim>\<open>%%\<close>, \<^verbatim>\<open>%s\<close> and
  \<^verbatim>\<open>%ld\<close>. A conversion without a matching argument produces nothing (the C code never
  does that).
\<close>

datatype fmt_arg = S string | L "64 word"

definition digit_char :: "nat \<Rightarrow> char" where
  "digit_char d = ''0123456789'' ! d"

fun dec_digits :: "nat \<Rightarrow> string" where
  "dec_digits n =
     (if n < 10 then [digit_char n] else dec_digits (n div 10) @ [digit_char (n mod 10)])"

definition printf_ld :: "64 word \<Rightarrow> string" where
  "printf_ld v =
     (if sint v < 0 then CHR ''-'' # dec_digits (nat (- sint v)) else dec_digits (nat (sint v)))"

fun format :: "string \<Rightarrow> fmt_arg list \<Rightarrow> string" where
  "format [] args = []"
| "format [c] args = [c]"
| "format (c # d # cs) args =
     (if c \<noteq> CHR ''%'' then c # format (d # cs) args
      else if d = CHR ''%'' then CHR ''%'' # format cs args
      else if d = CHR ''s'' then
        (case args of S s # rest \<Rightarrow> s @ format cs rest | _ \<Rightarrow> format cs args)
      else if d = CHR ''l'' \<and> cs \<noteq> [] \<and> hd cs = CHR ''d'' then
        (case args of L v # rest \<Rightarrow> printf_ld v @ format (tl cs) rest
                    | _ \<Rightarrow> format (tl cs) args)
      else c # format (d # cs) args)"

text \<open>\<^verbatim>\<open>snprintf(dst, n, ...)\<close> keeps at most \<open>n - 1\<close> characters.\<close>

definition snprintf :: "nat \<Rightarrow> string \<Rightarrow> fmt_arg list \<Rightarrow> string" where
  "snprintf n fmt args = take (n - 1) (format fmt args)"

definition PATH_MAX :: nat where
  "PATH_MAX = 4096"

section \<open>The text buffer\<close>

text \<open>
  Modelled from the spec: buffer.c is not part of the sources at hand. A buffer is the text
  written to it so far; \<^verbatim>\<open>buffer_printf\<close> and \<^verbatim>\<open>buffer_putc\<close> append, \<^verbatim>\<open>buffer_clear\<close>
  empties it.
\<close>

type_synonym buffer = string

definition buffer_printf :: "buffer \<Rightarrow> string \<Rightarrow> fmt_arg list \<Rightarrow> buffer" where
  "buffer_printf buf fmt args = buf @ format fmt args"

definition buffer_putc :: "buffer \<Rightarrow> char \<Rightarrow> buffer" where
  "buffer_putc buf c = buf @ [c]"

definition buffer_clear :: "buffer \<Rightarrow> buffer" where
  "buffer_clear buf = []"

section \<open>The file system and the archive on disk\<close>

text \<open>
  An archive file is the list of the entries written to it so far (path name and data; the
  type, permission and time fields of an entry header are left out) and a flag telling
  whether \<^verbatim>\<open>archive_write_close\<close> has finished it. A path of \<open>locked\<close> can be neither
  created, truncated nor removed: \<^verbatim>\<open>unlink\<close> and opening for writing fail there. \<open>stdio\<close>
  is what the process has printed.
\<close>

type_synonym archive_entry = "string \<times> string"

datatype disk_file = Regular | Symlink string | Archive "archive_entry list" bool

datatype message = Printf string | Warnx string | Warn string

record world =
  files :: "string \<rightharpoonup> disk_file"
  locked :: "string set"
  stdio :: "message list"

definition printf :: "world \<Rightarrow> string \<Rightarrow> fmt_arg list \<Rightarrow> world" where
  "printf w fmt args = w\<lparr>stdio := stdio w @ [Printf (format fmt args)]\<rparr>"

definition warnx :: "world \<Rightarrow> string \<Rightarrow> fmt_arg list \<Rightarrow> world" where
  "warnx w fmt args = w\<lparr>stdio := stdio w @ [Warnx (format fmt args)]\<rparr>"

definition warn :: "world \<Rightarrow> string \<Rightarrow> fmt_arg list \<Rightarrow> world" where
  "warn w fmt args = w\<lparr>stdio := stdio w @ [Warn (format fmt args)]\<rparr>"

definition stat :: "world \<Rightarrow> string \<Rightarrow> int" where
  "stat w path = (if files w path = None then - 1 else 0)"

definition unlink :: "world \<Rightarrow> string \<Rightarrow> int \<times> world" where
  "unlink w path =
     (if files w path = None \<or> path \<in> locked w then (- 1, w)
      else (0, w\<lparr>files := (files w)(path := None)\<rparr>))"

definition symlink :: "world \<Rightarrow> string \<Rightarrow> string \<Rightarrow> int \<times> world" where
  "symlink w target linkpath =
     (if files w linkpath \<noteq> None \<or> linkpath \<in> locked w then (- 1, w)
      else (0, w\<lparr>files := (files w)(linkpath \<mapsto> Symlink target)\<rparr>))"

text \<open>
  \<^verbatim>\<open>archive_write_open_filename\<close> creates the file or truncates it; the handle is the path
  it writes to, \<open>None\<close> when the file could not be opened. Writing to a handle that is not
  open does nothing. The C code ignores the results of all these calls.
\<close>

definition archive_write_open_filename :: "world \<Rightarrow> string \<Rightarrow> string option \<times> world" where
  "archive_write_open_filename w path =
     (if path \<in> locked w then (None, w)
      else (Some path, w\<lparr>files := (files w)(path \<mapsto> Archive [] False)\<rparr>))"

definition archive_write_buffer :: "world \<Rightarrow> string option \<Rightarrow> string \<Rightarrow> buffer \<Rightarrow> world" where
  "archive_write_buffer w a path buf =
     (case a of
        None \<Rightarrow> w
      | Some f \<Rightarrow>
          (case files w f of
             Some (Archive es fin) \<Rightarrow> w\<lparr>files := (files w)(f \<mapsto> Archive (es @ [(path, buf)]) fin)\<rparr>
           | _ \<Rightarrow> w))"

definition archive_write_close :: "world \<Rightarrow> string option \<Rightarrow> world" where
  "archive_write_close w a =
     (case a of
        None \<Rightarrow> w
      | Some f \<Rightarrow>
          (case files w f of
             Some (Archive es fin) \<Rightarrow> w\<lparr>files := (files w)(f \<mapsto> Archive es True)\<rparr>
           | _ \<Rightarrow> w))"

section \<open>Directory traversal\<close>

text \<open>
  What \<^verbatim>\<open>fts_read\<close> returns for one visit: the kind of the visit, the path from the root
  argument down to the file, and the depth (0 for a root argument).
\<close>

datatype fts_info = FTS_D | FTS_DP | FTS_F | FTS_DEFAULT | FTS_NS | FTS_DNR | FTS_DC

record ftsent =
  fts_info :: fts_info
  fts_path :: string
  fts_level :: nat

section \<open>External services\<close>

text \<open>
  The checksum functions and the version comparison belong to libalpm, the extraction of a
  package's metadata and the reader of an archive to alpm_metadata.c, the traversal to the
  C library; the program is verified for every choice of them.
  \<open>alpm_pkg_vercmp a b\<close> is \<open>1\<close> when \<open>a\<close> is newer than \<open>b\<close>, \<open>- 1\<close> when it is older,
  \<open>0\<close> when they are equal. \<open>alpm_db_populate\<close> gets what is on disk at the path it is
  given and yields the records in the order of \<^verbatim>\<open>pkgcache->list\<close>. \<open>fts_open\<close> yields
  the visits that \<^verbatim>\<open>fts_read\<close> will return, in order, or \<open>None\<close> when \<^verbatim>\<open>fts_open\<close>
  itself fails.
\<close>

record services =
  alpm_compute_md5sum :: "string \<Rightarrow> string"
  alpm_compute_sha256sum :: "string \<Rightarrow> string"
  alpm_pkg_vercmp :: "string \<Rightarrow> string \<Rightarrow> int"
  alpm_pkg_load_metadata :: "string \<Rightarrow> alpm_pkg_meta"
  alpm_db_populate :: "disk_file option \<Rightarrow> alpm_pkg_meta list"
  fts_open :: "string list \<Rightarrow> ftsent list option"

section \<open>Writing the records of a package\<close>

fun write_list_loop :: "buffer \<Rightarrow> string list \<Rightarrow> buffer" where
  "write_list_loop buf [] = buf"
| "write_list_loop buf (str # lst) =
     write_list_loop (buffer_printf buf ''%s\<newline>'' [S str]) lst"

definition write_list :: "buffer \<Rightarrow> string \<Rightarrow> string list \<Rightarrow> buffer" where
  "write_list buf header lst =
     (let buf = buffer_printf buf ''%%%s%%\<newline>'' [S header];
          buf = write_list_loop buf lst
      in buffer_putc buf CHR ''\<newline>'')"

definition write_string :: "buffer \<Rightarrow> string \<Rightarrow> string \<Rightarrow> buffer" where
  "write_string buf header str =
     buffer_printf buf ''%%%s%%\<newline>%s\<newline>\<newline>'' [S header, S str]"

definition write_long :: "buffer \<Rightarrow> string \<Rightarrow> 64 word \<Rightarrow> buffer" where
  "write_long buf header val =
     buffer_printf buf ''%%%s%%\<newline>%ld\<newline>\<newline>'' [S header, L val]"

definition write_depends_file :: "alpm_pkg_meta \<Rightarrow> buffer \<Rightarrow> buffer" where
  "write_depends_file pkg buf =
     (let buf = write_list buf ''DEPENDS'' (depends pkg);
          buf = write_list buf ''CONFLICTS'' (conflicts pkg);
          buf = write_list buf ''PROVIDES'' (provides pkg);
          buf = write_list buf ''OPTDEPENDS'' (optdepends pkg)
      in write_list buf ''MAKEDEPENDS'' (makedepends pkg))"

text \<open>\<^verbatim>\<open>strrchr\<close>: the rest of the string from the last occurrence of the character on.\<close>

fun strrchr :: "string \<Rightarrow> char \<Rightarrow> string option" where
  "strrchr [] c = None"
| "strrchr (x # xs) c =
     (case strrchr xs c of
        Some r \<Rightarrow> Some r
      | None \<Rightarrow> if x = c then Some (x # xs) else None)"

definition write_desc_file :: "services \<Rightarrow> alpm_pkg_meta \<Rightarrow> buffer \<Rightarrow> buffer" where
  "write_desc_file sv pkg buf =
     (let fname = strrchr (filename pkg) CHR ''/'';
          md5 = alpm_compute_md5sum sv (filename pkg);
          sha256 = alpm_compute_sha256sum sv (filename pkg);
          buf = write_string buf ''FILENAME''
                  (case fname of Some r \<Rightarrow> tl r | None \<Rightarrow> filename pkg);
          buf = write_string buf ''NAME'' (name pkg);
          buf = write_string buf ''VERSION'' (version pkg);
          buf = write_string buf ''DESC'' (desc pkg);
          buf = write_long buf ''CSIZE'' (size_pkg pkg);
          buf = write_long buf ''ISIZE'' (isize pkg);
          buf = write_string buf ''MD5SUM'' md5;
          buf = write_string buf ''SHA256SUM'' sha256;
          buf = write_string buf ''URL'' (url pkg);
          buf = write_list buf ''LICENSE'' (license pkg);
          buf = write_string buf ''ARCH'' (arch pkg);
          buf = write_long buf ''BUILDDATE'' (builddate pkg)
      in write_string buf ''PACKAGER'' (packager pkg))"

section \<open>The archive writer\<close>

record repo =
  archive :: "string option"
  buf :: buffer

definition repo_write_new :: "world \<Rightarrow> string \<Rightarrow> repo \<times> world" where
  "repo_write_new w fname =
     (case archive_write_open_filename w fname of
        (a, w) \<Rightarrow> (\<lparr>archive = a, buf = []\<rparr>, w))"

definition repo_write_pkg :: "services \<Rightarrow> repo \<times> world \<Rightarrow> alpm_pkg_meta \<Rightarrow> repo \<times> world" where
  "repo_write_pkg sv rw pkg =
     (case rw of (repo, w) \<Rightarrow>
        (let repo = repo\<lparr>buf := buffer_clear (buf repo)\<rparr>;
             repo = repo\<lparr>buf := write_desc_file sv pkg (buf repo)\<rparr>;
             path = snprintf PATH_MAX ''%s-%s/%s'' [S (name pkg), S (version pkg), S ''desc''];
             w = archive_write_buffer w (archive repo) path (buf repo);
             repo = repo\<lparr>buf := buffer_clear (buf repo)\<rparr>;
             repo = repo\<lparr>buf := write_depends_file pkg (buf repo)\<rparr>;
             path = snprintf PATH_MAX ''%s-%s/%s'' [S (name pkg), S (version pkg), S ''depends''];
             w = archive_write_buffer w (archive repo) path (buf repo)
         in (repo, w)))"

definition repo_write_close :: "repo \<times> world \<Rightarrow> world" where
  "repo_write_close rw = (case rw of (repo, w) \<Rightarrow> archive_write_close w (archive repo))"

section \<open>The record layout as the specification words it\<close>

definition spec_scalar_field :: "string \<Rightarrow> string \<Rightarrow> string" where
  "spec_scalar_field header v = ''%'' @ header @ ''%\<newline>'' @ v @ ''\<newline>\<newline>''"

definition spec_list_field :: "string \<Rightarrow> string list \<Rightarrow> string" where
  "spec_list_field header vs =
     ''%'' @ header @ ''%\<newline>'' @ concat (map (\<lambda>v. v @ ''\<newline>'') vs) @ ''\<newline>''"

definition spec_base_name :: "string \<Rightarrow> string" where
  "spec_base_name path = rev (takeWhile (\<lambda>c. c \<noteq> CHR ''/'') (rev path))"

definition spec_desc_blob :: "services \<Rightarrow> alpm_pkg_meta \<Rightarrow> string" where
  "spec_desc_blob sv pkg =
     spec_scalar_field ''FILENAME'' (spec_base_name (filename pkg)) @
     spec_scalar_field ''NAME'' (name pkg) @
     spec_scalar_field ''VERSION'' (version pkg) @
     spec_scalar_field ''DESC'' (desc pkg) @
     spec_scalar_field ''CSIZE'' (printf_ld (size_pkg pkg)) @
     spec_scalar_field ''ISIZE'' (printf_ld (isize pkg)) @
     spec_scalar_field ''MD5SUM'' (alpm_compute_md5sum sv (filename pkg)) @
     spec_scalar_field ''SHA256SUM'' (alpm_compute_sha256sum sv (filename pkg)) @
     spec_scalar_field ''URL'' (url pkg) @
     spec_list_field ''LICENSE'' (license pkg) @
     spec_scalar_field ''ARCH'' (arch pkg) @
     spec_scalar_field ''BUILDDATE'' (printf_ld (builddate pkg)) @
     spec_scalar_field ''PACKAGER'' (packager pkg)"

definition spec_depends_blob :: "alpm_pkg_meta \<Rightarrow> string" where
  "spec_depends_blob pkg =
     spec_list_field ''DEPENDS'' (depends pkg) @
     spec_list_field ''CONFLICTS'' (conflicts pkg) @
     spec_list_field ''PROVIDES'' (provides pkg) @
     spec_list_field ''OPTDEPENDS'' (optdepends pkg) @
     spec_list_field ''MAKEDEPENDS'' (makedepends pkg)"

definition spec_entries :: "services \<Rightarrow> alpm_pkg_meta \<Rightarrow> archive_entry list" where
  "spec_entries sv pkg =
     [(take (PATH_MAX - 1) (name pkg @ ''-'' @ version pkg @ ''/desc''), spec_desc_blob sv pkg),
      (take (PATH_MAX - 1) (name pkg @ ''-'' @ version pkg @ ''/depends''), spec_depends_blob pkg)]"

section \<open>Package index\<close>

text \<open>
  Modelled from the spec: pkghash.c is not part of the sources at hand. The index keeps at
  most one record per name: \<^verbatim>\<open>_alpm_pkghash_add\<close> replaces a record of the same name,
  \<^verbatim>\<open>_alpm_pkghash_remove\<close> removes the record that has the name of the one given and does
  nothing when there is none, \<^verbatim>\<open>_alpm_pkghash_find\<close> looks a name up. The list of an
  index is the enumeration order; a loop over \<^verbatim>\<open>cache->list\<close> walks the list as it was
  when the loop started.
\<close>

type_synonym alpm_pkghash = "alpm_pkg_meta list"

definition alpm_pkghash_create :: "nat \<Rightarrow> alpm_pkghash" where
  "alpm_pkghash_create n = []"

fun alpm_pkghash_find :: "alpm_pkghash \<Rightarrow> string \<Rightarrow> alpm_pkg_meta option" where
  "alpm_pkghash_find [] n = None"
| "alpm_pkghash_find (p # ps) n = (if name p = n then Some p else alpm_pkghash_find ps n)"

definition alpm_pkghash_remove :: "alpm_pkghash \<Rightarrow> alpm_pkg_meta \<Rightarrow> alpm_pkghash" where
  "alpm_pkghash_remove cache pkg = filter (\<lambda>p. name p \<noteq> name pkg) cache"

definition alpm_pkghash_add :: "alpm_pkghash \<Rightarrow> alpm_pkg_meta \<Rightarrow> alpm_pkghash" where
  "alpm_pkghash_add cache pkg = filter (\<lambda>p. name p \<noteq> name pkg) cache @ [pkg]"

definition alpm_list_add :: "'a list \<Rightarrow> 'a \<Rightarrow> 'a list" where
  "alpm_list_add lst x = lst @ [x]"

section \<open>File scanner\<close>

text \<open>
  \<^verbatim>\<open>fnmatch\<close> with \<^verbatim>\<open>FNM_CASEFOLD\<close> and no other flag, for patterns made of \<^verbatim>\<open>*\<close> and
  ordinary characters, as the filter of \<^verbatim>\<open>find_packages\<close> is: \<^verbatim>\<open>*\<close> stands for any
  run of characters (a slash and a leading period included), letters match in either case.
  The result is 0 for a match and \<^verbatim>\<open>FNM_NOMATCH\<close> (1) otherwise.
\<close>

definition tolower :: "char \<Rightarrow> char" where
  "tolower c =
     (if 65 \<le> (of_char c :: nat) \<and> (of_char c :: nat) \<le> 90 then char_of (of_char c + 32 :: nat)
      else c)"

fun fnmatch_casefold :: "string \<Rightarrow> string \<Rightarrow> bool" where
  "fnmatch_casefold [] s = (s = [])"
| "fnmatch_casefold (p # ps) [] = (p = CHR ''*'' \<and> fnmatch_casefold ps [])"
| "fnmatch_casefold (p # ps) (c # cs) =
     (if p = CHR ''*'' then fnmatch_casefold ps (c # cs) \<or> fnmatch_casefold (p # ps) cs
      else tolower p = tolower c \<and> fnmatch_casefold ps cs)"

definition fnmatch :: "string \<Rightarrow> string \<Rightarrow> int" where
  "fnmatch pattern s = (if fnmatch_casefold pattern s then 0 else 1)"

definition filter_pkg :: string where
  "filter_pkg = ''*.pkg.tar*''"

fun find_packages_loop :: "ftsent list \<Rightarrow> string list \<Rightarrow> string list" where
  "find_packages_loop [] pkgs = pkgs"
| "find_packages_loop (p # rest) pkgs =
     (case fts_info p of
        FTS_F \<Rightarrow>
          if fnmatch filter_pkg (fts_path p) = 0
          then find_packages_loop rest (alpm_list_add pkgs (fts_path p))
          else find_packages_loop rest pkgs
      | _ \<Rightarrow> find_packages_loop rest pkgs)"

text \<open>
  \<^verbatim>\<open>fts_children\<close> before the first \<^verbatim>\<open>fts_read\<close> is the list of the root arguments: the
  visits of depth 0. The result of \<open>find_packages\<close> is \<open>Inl\<close> of the world when the process
  has ended in \<^verbatim>\<open>err(EXIT_FAILURE, ...)\<close>.
\<close>

definition fts_children :: "ftsent list \<Rightarrow> ftsent list" where
  "fts_children ftsp = filter (\<lambda>p. fts_level p = 0) ftsp"

definition EXIT_FAILURE :: int where
  "EXIT_FAILURE = 1"

definition find_packages :: "services \<Rightarrow> world \<Rightarrow> string list \<Rightarrow> world + string list" where
  "find_packages sv w paths =
     (case fts_open sv paths of
        None \<Rightarrow> Inl (warn w ''fts_open'' [])
      | Some ftsp \<Rightarrow>
          if fts_children ftsp = [] then Inr []
          else Inr (find_packages_loop ftsp []))"

section \<open>VERIFY\<close>

definition verify_pkg :: "services \<Rightarrow> world \<Rightarrow> alpm_pkg_meta \<Rightarrow> bool \<Rightarrow> int \<times> world" where
  "verify_pkg sv w pkg deep =
     (if stat w (filename pkg) < 0
      then (1, warn w ''couldn't find pkg %s'' [S (filename pkg)])
      else if \<not> deep then (0, w)
      else if md5sum pkg \<noteq> alpm_compute_md5sum sv (filename pkg)
      then (1, warnx w ''md5 sum for pkg %s is different'' [S (filename pkg)])
      else if sha256sum pkg \<noteq> alpm_compute_sha256sum sv (filename pkg)
      then (1, warnx w ''sha256 sum for pkg %s is different'' [S (filename pkg)])
      else (0, w))"

fun verify_db_loop :: "services \<Rightarrow> alpm_pkg_meta list \<Rightarrow> int \<times> world \<Rightarrow> int \<times> world" where
  "verify_db_loop sv [] rw = rw"
| "verify_db_loop sv (metadata # pkgs) rw =
     (case rw of (rc, w) \<Rightarrow>
        (case verify_pkg sv w metadata True of
           (r, w) \<Rightarrow> verify_db_loop sv pkgs (rc OR r, w)))"

definition verify_db :: "services \<Rightarrow> world \<Rightarrow> string \<Rightarrow> int \<times> world" where
  "verify_db sv w repopath =
     (let pkgs = alpm_db_populate sv (files w repopath) in
      case verify_db_loop sv pkgs (0, w) of
        (rc, w) \<Rightarrow> (rc, if rc = 0 then printf w ''repo okay!\<newline>'' [] else w))"

section \<open>UPDATE\<close>

text \<open>The loop of lines 256 to 264: records whose file is gone leave the index.\<close>

fun update_db_prune ::
  "services \<Rightarrow> alpm_pkg_meta list \<Rightarrow> world \<times> alpm_pkghash \<times> bool \<Rightarrow> world \<times> alpm_pkghash \<times> bool"
where
  "update_db_prune sv [] st = st"
| "update_db_prune sv (metadata # pkgs) st =
     (case st of (w, cache, dirty) \<Rightarrow>
        (case verify_pkg sv w metadata False of
           (r, w) \<Rightarrow>
             if r = 1
             then update_db_prune sv pkgs
                    (printf w ''REMOVING: %s-%s\<newline>'' [S (name metadata), S (version metadata)],
                     alpm_pkghash_remove cache metadata, True)
             else update_db_prune sv pkgs (w, cache, dirty)))"

text \<open>Lines 242 to 265: read the existing archive or start with an empty index.\<close>

definition update_db_load :: "services \<Rightarrow> world \<Rightarrow> string \<Rightarrow> world \<times> alpm_pkghash \<times> bool" where
  "update_db_load sv w repopath =
     (if stat w repopath < 0
      then (warnx w ''warning: repo doesn't exist, creating...'' [], alpm_pkghash_create 23, True)
      else
        (let w = printf w '':: Reading existing database...\<newline>'' [];
             cache = alpm_db_populate sv (files w repopath)
         in update_db_prune sv cache (w, cache, False)))"

text \<open>The body of the loop of lines 273 to 298, for one path that the scanner has found.\<close>

definition update_db_candidate ::
  "services \<Rightarrow> int \<Rightarrow> world \<times> alpm_pkghash \<times> bool \<Rightarrow> string \<Rightarrow> world \<times> alpm_pkghash \<times> bool"
where
  "update_db_candidate sv clean st path =
     (case st of (w, cache, dirty) \<Rightarrow>
        (let metadata = alpm_pkg_load_metadata sv path;
             old = alpm_pkghash_find cache (name metadata);
             vercmp = (case old of
                         None \<Rightarrow> 0
                       | Some pkg \<Rightarrow> alpm_pkg_vercmp sv (version metadata) (version pkg));
             (w, cache, dirty) =
               (if old = None \<or> vercmp = 1 then
                  (let (w, cache) =
                         (case old of
                            Some pkg \<Rightarrow>
                              (let w = printf w ''UPDATING: %s-%s\<newline>''
                                         [S (name metadata), S (version metadata)];
                                   w = (if clean \<noteq> 0 then snd (unlink w (filename pkg)) else w)
                               in (w, alpm_pkghash_remove cache metadata))
                          | None \<Rightarrow>
                              (printf w ''ADDING: %s-%s\<newline>''
                                 [S (name metadata), S (version metadata)], cache))
                   in (w, alpm_pkghash_add cache metadata, True))
                else (w, cache, dirty));
             w = (if vercmp = - 1 \<and> clean \<noteq> 0 then snd (unlink w (filename metadata)) else w)
         in (w, cache, dirty)))"

fun update_db_merge ::
  "services \<Rightarrow> int \<Rightarrow> string list \<Rightarrow> world \<times> alpm_pkghash \<times> bool \<Rightarrow> world \<times> alpm_pkghash \<times> bool"
where
  "update_db_merge sv clean [] st = st"
| "update_db_merge sv clean (path # pkgs) st =
     update_db_merge sv clean pkgs (update_db_candidate sv clean st path)"

text \<open>Lines 268 to 299. \<open>Inl\<close> is the end of the process inside \<open>find_packages\<close>.\<close>

definition update_db_scan ::
  "services \<Rightarrow> int \<Rightarrow> string list \<Rightarrow> world \<times> alpm_pkghash \<times> bool
     \<Rightarrow> world + world \<times> alpm_pkghash \<times> bool"
where
  "update_db_scan sv clean argv st =
     (case st of (w, cache, dirty) \<Rightarrow>
        if length argv > 0 then
          (let w = printf w '':: Scanning for new packages...\<newline>'' [] in
           case find_packages sv w argv of
             Inl w \<Rightarrow> Inl w
           | Inr pkgs \<Rightarrow> Inr (update_db_merge sv clean pkgs (w, cache, dirty)))
        else Inr (w, cache, dirty))"

fun repo_write_pkgs :: "services \<Rightarrow> alpm_pkg_meta list \<Rightarrow> repo \<times> world \<Rightarrow> repo \<times> world" where
  "repo_write_pkgs sv [] rw = rw"
| "repo_write_pkgs sv (metadata # pkgs) rw = repo_write_pkgs sv pkgs (repo_write_pkg sv rw metadata)"

text \<open>Lines 302 to 317.\<close>

definition update_db_write :: "services \<Rightarrow> string \<Rightarrow> world \<times> alpm_pkghash \<times> bool \<Rightarrow> world" where
  "update_db_write sv repopath st =
     (case st of (w, cache, dirty) \<Rightarrow>
        if dirty then
          (let w = printf w '':: Writing database to disk...\<newline>'' [];
               rw = repo_write_new w repopath;
               rw = repo_write_pkgs sv cache rw;
               w = repo_write_close rw
           in printf w ''repo %s updated successfully\<newline>'' [S repopath])
        else printf w ''repo %s does not need updating\<newline>'' [S repopath])"

datatype outcome = Exited int world | Returned int world

definition update_db :: "services \<Rightarrow> world \<Rightarrow> string \<Rightarrow> string list \<Rightarrow> int \<Rightarrow> outcome" where
  "update_db sv w repopath argv clean =
     (case update_db_scan sv clean argv (update_db_load sv w repopath) of
        Inl w \<Rightarrow> Exited EXIT_FAILURE w
      | Inr st \<Rightarrow> Returned 0 (update_db_write sv repopath st))"

text \<open>
  The index as it is when the scan is over, which is what UPDATE writes when it is dirty
  (\<open>None\<close> when the process has ended in the scanner), and the world an outcome leaves.
\<close>

definition update_db_index :: "services \<Rightarrow> world \<Rightarrow> string \<Rightarrow> string list \<Rightarrow> int \<Rightarrow> alpm_pkghash option" where
  "update_db_index sv w repopath argv clean =
     (case update_db_scan sv clean argv (update_db_load sv w repopath) of
        Inl w \<Rightarrow> None
      | Inr (w, cache, dirty) \<Rightarrow> Some cache)"

fun outcome_world :: "outcome \<Rightarrow> world" where
  "outcome_world (Exited status w) = w"
| "outcome_world (Returned rc w) = w"

section \<open>QUERY\<close>

definition print_pkg_metadata :: "world \<Rightarrow> alpm_pkg_meta \<Rightarrow> world" where
  "print_pkg_metadata w pkg =
     (let w = printf w ''Filename     : %s\<newline>'' [S (filename pkg)];
          w = printf w ''Name         : %s\<newline>'' [S (name pkg)];
          w = printf w ''Version      : %s\<newline>'' [S (version pkg)];
          w = printf w ''Description  : %s\<newline>'' [S (desc pkg)];
          w = printf w ''Architecture : %s\<newline>'' [S (arch pkg)];
          w = printf w ''URL          : %s\<newline>'' [S (url pkg)]
      in printf w ''Packager     : %s\<newline>\<newline>'' [S (packager pkg)])"

fun query_db_names :: "alpm_pkghash \<Rightarrow> string list \<Rightarrow> world \<Rightarrow> int \<times> world" where
  "query_db_names db [] w = (0, w)"
| "query_db_names db (a # argv) w =
     (case alpm_pkghash_find db a of
        None \<Rightarrow> (1, warnx w ''pkg not found'' [])
      | Some pkg \<Rightarrow> query_db_names db argv (print_pkg_metadata w pkg))"

fun query_db_all :: "alpm_pkg_meta list \<Rightarrow> world \<Rightarrow> world" where
  "query_db_all [] w = w"
| "query_db_all (pkg # pkgs) w = query_db_all pkgs (print_pkg_metadata w pkg)"

definition query_db :: "services \<Rightarrow> world \<Rightarrow> string \<Rightarrow> string list \<Rightarrow> int \<times> world" where
  "query_db sv w repopath argv =
     (if stat w repopath < 0 then (1, warnx w ''repo doesn't exist'' [])
      else
        (let db = alpm_db_populate sv (files w repopath) in
         if length argv > 0 then query_db_names db argv w
         else (0, query_db_all db w)))"

section \<open>The dispatch of main\<close>

text \<open>
  Lines 434 to 456 of \<^verbatim>\<open>main\<close>, after the options have been read: \<open>reponame\<close> is the
  repository name, \<open>args\<close> are the arguments that are left, \<open>clean\<close> counts the \<^verbatim>\<open>-c\<close>
  options. The result is the exit status of the process.
\<close>

datatype repoman_action = ACTION_VERIFY | ACTION_UPDATE | ACTION_QUERY | INVALID_ACTION

definition repoman_main ::
  "services \<Rightarrow> world \<Rightarrow> repoman_action \<Rightarrow> string \<Rightarrow> string list \<Rightarrow> int \<Rightarrow> int \<times> world"
where
  "repoman_main sv w action reponame args clean =
     (let repopath = snprintf PATH_MAX ''%s.db.tar.gz'' [S reponame];
          linkpath = snprintf PATH_MAX ''%s.db'' [S reponame]
      in case action of
           ACTION_VERIFY \<Rightarrow> verify_db sv w repopath
         | ACTION_UPDATE \<Rightarrow>
             (case update_db sv w repopath args clean of
                Exited status w \<Rightarrow> (status, w)
              | Returned rc w \<Rightarrow>
                  (rc, if rc = 0 then snd (symlink w repopath linkpath) else w))
         | ACTION_QUERY \<Rightarrow> query_db sv w repopath args
         | INVALID_ACTION \<Rightarrow> (1, w))"

section \<open>What VERIFY reports for a record\<close>

text \<open>
  The report for one record as the code gives it: the first check that fails is the only
  one reported. \<open>spec_record_ok\<close> is the aggregate condition of the specification: the file
  is there and both checksums agree.
\<close>

definition spec_verify_report :: "services \<Rightarrow> (string \<rightharpoonup> disk_file) \<Rightarrow> alpm_pkg_meta \<Rightarrow> message list" where
  "spec_verify_report sv fs pkg =
     (if fs (filename pkg) = None then [Warn (''couldn't find pkg '' @ filename pkg)]
      else if md5sum pkg \<noteq> alpm_compute_md5sum sv (filename pkg)
      then [Warnx (''md5 sum for pkg '' @ filename pkg @ '' is different'')]
      else if sha256sum pkg \<noteq> alpm_compute_sha256sum sv (filename pkg)
      then [Warnx (''sha256 sum for pkg '' @ filename pkg @ '' is different'')]
      else [])"

definition spec_record_ok :: "services \<Rightarrow> (string \<rightharpoonup> disk_file) \<Rightarrow> alpm_pkg_meta \<Rightarrow> bool" where
  "spec_record_ok sv fs pkg =
     (fs (filename pkg) \<noteq> None \<and> md5sum pkg = alpm_compute_md5sum sv (filename pkg)
      \<and> sha256sum pkg = alpm_compute_sha256sum sv (filename pkg))"

section \<open>A directory tree under the traversal\<close>

text \<open>
  What \<^verbatim>\<open>fts_open\<close> and \<^verbatim>\<open>fts_read\<close> of the C library do on a tree of files, with the
  options of \<open>find_packages\<close> (symbolic links are followed, so a link counts as what it
  points to): a regular file is visited once, a directory before and after its entries, the
  path of an entry is the path of its directory (without a slash at its end), a slash and
  its name. A root argument that does not exist is visited as \<open>FTS_NS\<close>; with an empty
  root argument \<^verbatim>\<open>fts_open\<close> fails.
\<close>

datatype fs_node = File | Special | Directory "(string \<times> fs_node) list"

fun fts_walk :: "nat \<Rightarrow> string \<Rightarrow> fs_node \<Rightarrow> ftsent list" where
  "fts_walk lvl path File = [\<lparr>fts_info = FTS_F, fts_path = path, fts_level = lvl\<rparr>]"
| "fts_walk lvl path Special = [\<lparr>fts_info = FTS_DEFAULT, fts_path = path, fts_level = lvl\<rparr>]"
| "fts_walk lvl path (Directory entries) =
     \<lparr>fts_info = FTS_D, fts_path = path, fts_level = lvl\<rparr> #
     concat (map (\<lambda>e. fts_walk (Suc lvl)
                        ((if path \<noteq> [] \<and> last path = CHR ''/'' then butlast path else path)
                           @ ''/'' @ fst e)
                        (snd e)) entries) @
     [\<lparr>fts_info = FTS_DP, fts_path = path, fts_level = lvl\<rparr>]"

definition fts_open_tree :: "(string \<times> fs_node) list \<Rightarrow> string list \<Rightarrow> ftsent list option" where
  "fts_open_tree roots paths =
     (if [] \<in> set paths then None
      else Some (concat (map (\<lambda>p. case map_of roots p of
                               None \<Rightarrow> [\<lparr>fts_info = FTS_NS, fts_path = p, fts_level = 0\<rparr>]
                             | Some n \<Rightarrow> fts_walk 0 p n) paths)))"

text \<open>What the pattern accepts, said without the pattern: a text that contains \<open>.pkg.tar\<close>, in either case.\<close>

definition spec_matches_pkg_tar :: "string \<Rightarrow> bool" where
  "spec_matches_pkg_tar s = (\<exists>u v. map tolower s = u @ ''.pkg.tar'' @ v)"

section \<open>The states of the file system while the archive is written\<close>

text \<open>
  The worlds that the writing of lines 302 to 314 goes through, one after each call that
  changes the archive file: after \<open>repo_write_new\<close>, after each of the two
  \<open>archive_write_buffer\<close> calls of \<open>repo_write_pkg\<close> for every record, and after
  \<open>repo_write_close\<close>. \<open>update_db_states\<close> are these worlds for a whole run of \<open>update_db\<close>.
\<close>

definition repo_write_pkg_states :: "services \<Rightarrow> repo \<times> world \<Rightarrow> alpm_pkg_meta \<Rightarrow> world list" where
  "repo_write_pkg_states sv rw pkg =
     (case rw of (repo, w) \<Rightarrow>
        (let repo = repo\<lparr>buf := buffer_clear (buf repo)\<rparr>;
             repo = repo\<lparr>buf := write_desc_file sv pkg (buf repo)\<rparr>;
             path = snprintf PATH_MAX ''%s-%s/%s'' [S (name pkg), S (version pkg), S ''desc''];
             w1 = archive_write_buffer w (archive repo) path (buf repo);
             repo = repo\<lparr>buf := buffer_clear (buf repo)\<rparr>;
             repo = repo\<lparr>buf := write_depends_file pkg (buf repo)\<rparr>;
             path = snprintf PATH_MAX ''%s-%s/%s'' [S (name pkg), S (version pkg), S ''depends''];
             w2 = archive_write_buffer w1 (archive repo) path (buf repo)
         in [w1, w2]))"

fun repo_write_pkgs_states :: "services \<Rightarrow> alpm_pkg_meta list \<Rightarrow> repo \<times> world \<Rightarrow> world list" where
  "repo_write_pkgs_states sv [] rw = []"
| "repo_write_pkgs_states sv (metadata # pkgs) rw =
     repo_write_pkg_states sv rw metadata @
     repo_write_pkgs_states sv pkgs (repo_write_pkg sv rw metadata)"

definition update_db_write_states :: "services \<Rightarrow> string \<Rightarrow> world \<times> alpm_pkghash \<times> bool \<Rightarrow> world list" where
  "update_db_write_states sv repopath st =
     (case st of (w, cache, dirty) \<Rightarrow>
        if dirty then
          (let w = printf w '':: Writing database to disk...\<newline>'' [];
               rw = repo_write_new w repopath
           in snd rw # repo_write_pkgs_states sv cache rw @
              [repo_write_close (repo_write_pkgs sv cache rw)])
        else [])"

definition update_db_states :: "services \<Rightarrow> world \<Rightarrow> string \<Rightarrow> string list \<Rightarrow> int \<Rightarrow> world list" where
  "update_db_states sv w repopath argv clean =
     (case update_db_scan sv clean argv (update_db_load sv w repopath) of
        Inl w \<Rightarrow> []
      | Inr st \<Rightarrow> update_db_write_states sv repopath st)"

text \<open>What is to be seen of an archive file: the path names of its entries and whether it is finished.\<close>

definition archive_view :: "world \<Rightarrow> string \<Rightarrow> (string list \<times> bool) option" where
  "archive_view w path =
     (case files w path of
        Some (Archive es fin) \<Rightarrow> Some (map fst es, fin)
      | _ \<Rightarrow> None)"

definition archive_views :: "world list \<Rightarrow> string \<Rightarrow> (string list \<times> bool) option list" where
  "archive_views ws path = map (\<lambda>w. archive_view w path) ws"

section \<open>The reader of the archive\<close>

text \<open>
  Modelled from the spec: the reader \<^verbatim>\<open>alpm_db_populate\<close> (alpm_metadata.c) is not part of
  the sources at hand. This reader follows the record grammar of section 6 and the field
  order of section 4.4 of the specification: a field is a header line \<open>%HEADER%\<close>, its value
  lines and one empty line; a scalar field has exactly one value line, a list field has the
  lines up to the first empty line; integers are decimal, with a minus sign when negative.
  An archive is read once it is finished, entry by entry: the desc entry of a record, then
  its depends entry, under the paths \<open><name>-<version>/desc\<close> and \<open><name>-<version>/depends\<close>;
  the records are inserted into an empty index. A text or an archive of another form has no
  reading (\<open>None\<close>).
\<close>

fun lines_acc :: "string \<Rightarrow> string \<Rightarrow> string list" where
  "lines_acc cur [] = (if cur = [] then [] else [cur])"
| "lines_acc cur (c # cs) =
     (if c = CHR ''\<newline>'' then cur # lines_acc [] cs else lines_acc (cur @ [c]) cs)"

definition lines_of :: "string \<Rightarrow> string list" where
  "lines_of text = lines_acc [] text"

definition digit_val :: "char \<Rightarrow> nat option" where
  "digit_val c = (if c \<in> set ''0123456789'' then Some (of_char c - 48) else None)"

fun parse_digits :: "nat \<Rightarrow> string \<Rightarrow> nat option" where
  "parse_digits acc [] = Some acc"
| "parse_digits acc (c # cs) =
     (case digit_val c of None \<Rightarrow> None | Some d \<Rightarrow> parse_digits (10 * acc + d) cs)"

definition parse_ld :: "string \<Rightarrow> 64 word option" where
  "parse_ld s =
     (case s of
        [] \<Rightarrow> None
      | c # cs \<Rightarrow>
          if c = CHR ''-''
          then (if cs = [] then None else map_option (\<lambda>n. - of_nat n) (parse_digits 0 cs))
          else map_option of_nat (parse_digits 0 s))"

definition read_scalar :: "string \<Rightarrow> string list \<Rightarrow> (string \<times> string list) option" where
  "read_scalar header ls =
     (case ls of
        h # v # e # rest \<Rightarrow> if h = ''%'' @ header @ ''%'' \<and> e = [] then Some (v, rest) else None
      | _ \<Rightarrow> None)"

definition read_long :: "string \<Rightarrow> string list \<Rightarrow> (64 word \<times> string list) option" where
  "read_long header ls =
     (case read_scalar header ls of
        None \<Rightarrow> None
      | Some (v, rest) \<Rightarrow> (case parse_ld v of None \<Rightarrow> None | Some n \<Rightarrow> Some (n, rest)))"

definition read_list :: "string \<Rightarrow> string list \<Rightarrow> (string list \<times> string list) option" where
  "read_list header ls =
     (case ls of
        [] \<Rightarrow> None
      | h # rest \<Rightarrow>
          if h = ''%'' @ header @ ''%'' \<and> [] \<in> set rest
          then Some (takeWhile (\<lambda>l. l \<noteq> []) rest, tl (dropWhile (\<lambda>l. l \<noteq> []) rest))
          else None)"

text \<open>
  Modelled from the spec: the reading of one record from the texts of its desc and depends
  entries, field by field in the order of section 4.4.
\<close>

definition read_record :: "string \<Rightarrow> string \<Rightarrow> alpm_pkg_meta option" where
  "read_record desc_text depends_text =
     Option.bind (read_scalar ''FILENAME'' (lines_of desc_text)) (\<lambda>(v_filename, ls).
     Option.bind (read_scalar ''NAME'' ls) (\<lambda>(v_name, ls).
     Option.bind (read_scalar ''VERSION'' ls) (\<lambda>(v_version, ls).
     Option.bind (read_scalar ''DESC'' ls) (\<lambda>(v_desc, ls).
     Option.bind (read_long ''CSIZE'' ls) (\<lambda>(v_size, ls).
     Option.bind (read_long ''ISIZE'' ls) (\<lambda>(v_isize, ls).
     Option.bind (read_scalar ''MD5SUM'' ls) (\<lambda>(v_md5sum, ls).
     Option.bind (read_scalar ''SHA256SUM'' ls) (\<lambda>(v_sha256sum, ls).
     Option.bind (read_scalar ''URL'' ls) (\<lambda>(v_url, ls).
     Option.bind (read_list ''LICENSE'' ls) (\<lambda>(v_license, ls).
     Option.bind (read_scalar ''ARCH'' ls) (\<lambda>(v_arch, ls).
     Option.bind (read_long ''BUILDDATE'' ls) (\<lambda>(v_builddate, ls).
     Option.bind (read_scalar ''PACKAGER'' ls) (\<lambda>(v_packager, ls).
     Option.bind (read_list ''DEPENDS'' (lines_of depends_text)) (\<lambda>(v_depends, ds).
     Option.bind (read_list ''CONFLICTS'' ds) (\<lambda>(v_conflicts, ds).
     Option.bind (read_list ''PROVIDES'' ds) (\<lambda>(v_provides, ds).
     Option.bind (read_list ''OPTDEPENDS'' ds) (\<lambda>(v_optdepends, ds).
     Option.bind (read_list ''MAKEDEPENDS'' ds) (\<lambda>(v_makedepends, ds).
       if ls = [] \<and> ds = [] then
         Some \<lparr>filename = v_filename, name = v_name, version = v_version, desc = v_desc,
               url = v_url, packager = v_packager, md5sum = v_md5sum,
               sha256sum = v_sha256sum, arch = v_arch, size_pkg = v_size, isize = v_isize,
               builddate = v_builddate, license = v_license, depends = v_depends,
               conflicts = v_conflicts, provides = v_provides, optdepends = v_optdepends,
               makedepends = v_makedepends\<rparr>
       else None))))))))))))))))))"

text \<open>
  Modelled from the spec: the reading of the entries of an archive, two per record, and of
  an archive file into an index.
\<close>

fun read_entries :: "archive_entry list \<Rightarrow> alpm_pkg_meta list option" where
  "read_entries [] = Some []"
| "read_entries [e] = None"
| "read_entries ((p1, t1) # (p2, t2) # es) =
     (case read_record t1 t2 of
        None \<Rightarrow> None
      | Some pkg \<Rightarrow>
          if p1 = name pkg @ ''-'' @ version pkg @ ''/desc''
             \<and> p2 = name pkg @ ''-'' @ version pkg @ ''/depends''
          then map_option ((#) pkg) (read_entries es)
          else None)"

definition spec_db_populate :: "disk_file option \<Rightarrow> alpm_pkghash option" where
  "spec_db_populate f =
     (case f of
        Some (Archive es True) \<Rightarrow>
          map_option (foldl alpm_pkghash_add (alpm_pkghash_create 23)) (read_entries es)
      | _ \<Rightarrow> None)"

text \<open>
  What the archive keeps of a record: the base name of the file and the checksums of the
  file as the writer computes them; and the records that the text format can carry: no
  field has a line break in it, no list item is empty, and the entry paths fit
  \<open>PATH_MAX\<close>.
\<close>

definition spec_stored :: "services \<Rightarrow> alpm_pkg_meta \<Rightarrow> alpm_pkg_meta" where
  "spec_stored sv pkg =
     pkg\<lparr>filename := spec_base_name (filename pkg),
         md5sum := alpm_compute_md5sum sv (filename pkg),
         sha256sum := alpm_compute_sha256sum sv (filename pkg)\<rparr>"

definition one_line :: "string \<Rightarrow> bool" where
  "one_line s = (CHR ''\<newline>'' \<notin> set s)"

definition item_lines :: "string list \<Rightarrow> bool" where
  "item_lines vs = list_all (\<lambda>v. v \<noteq> [] \<and> one_line v) vs"

definition spec_writable :: "services \<Rightarrow> alpm_pkg_meta \<Rightarrow> bool" where
  "spec_writable sv pkg =
     (one_line (filename pkg) \<and> one_line (name pkg) \<and> one_line (version pkg)
      \<and> one_line (desc pkg) \<and> one_line (alpm_compute_md5sum sv (filename pkg))
      \<and> one_line (alpm_compute_sha256sum sv (filename pkg)) \<and> one_line (url pkg)
      \<and> one_line (arch pkg) \<and> one_line (packager pkg)
      \<and> item_lines (license pkg) \<and> item_lines (depends pkg) \<and> item_lines (conflicts pkg)
      \<and> item_lines (provides pkg) \<and> item_lines (optdepends pkg) \<and> item_lines (makedepends pkg)
      \<and> length (name pkg @ ''-'' @ version pkg @ ''/depends'') < PATH_MAX)"

section \<open>Concrete inputs\<close>

text \<open>
  A small repository for running the definitions: three builds of the package \<open>foo\<close> and
  one of \<open>bar\<close>, services that know these files, and versions ordered 1.0, 1.1, 1.2.
\<close>

definition ex_pkg :: "string \<Rightarrow> string \<Rightarrow> string \<Rightarrow> alpm_pkg_meta" where
  "ex_pkg f n v =
     \<lparr>filename = f, name = n, version = v, desc = ''a package'', url = ''http://example.org'',
      packager = ''nobody'', md5sum = ''0cc175b9'', sha256sum = ''ca978112'', arch = ''any'',
      size_pkg = 1234, isize = 5678, builddate = 1380000000, license = [''GPL'', ''MIT''],
      depends = [''glibc''], conflicts = [], provides = [], optdepends = [],
      makedepends = []\<rparr>"

definition ex_foo_1_0 :: alpm_pkg_meta where
  "ex_foo_1_0 = ex_pkg ''pkgs/foo-1.0-1-any.pkg.tar.xz'' ''foo'' ''1.0''"

definition ex_foo_1_1 :: alpm_pkg_meta where
  "ex_foo_1_1 = ex_pkg ''pkgs/foo-1.1-1-any.pkg.tar.xz'' ''foo'' ''1.1''"

definition ex_foo_1_2 :: alpm_pkg_meta where
  "ex_foo_1_2 = ex_pkg ''pkgs/foo-1.2-1-any.pkg.tar.xz'' ''foo'' ''1.2''"

definition ex_bar_1_0 :: alpm_pkg_meta where
  "ex_bar_1_0 = ex_pkg ''pkgs/bar-1.0-1-any.pkg.tar.xz'' ''bar'' ''1.0''"

definition ex_rank :: "string \<Rightarrow> nat" where
  "ex_rank v = (if v = ''1.0'' then 0 else if v = ''1.1'' then 1 else 2)"

definition ex_vercmp :: "string \<Rightarrow> string \<Rightarrow> int" where
  "ex_vercmp a b = (if ex_rank a < ex_rank b then - 1 else if ex_rank a = ex_rank b then 0 else 1)"

definition ex_load_metadata :: "string \<Rightarrow> alpm_pkg_meta" where
  "ex_load_metadata path =
     (if path = ''pkgs/foo-1.0-1-any.pkg.tar.xz'' then ex_foo_1_0
      else if path = ''pkgs/foo-1.1-1-any.pkg.tar.xz'' then ex_foo_1_1
      else if path = ''pkgs/foo-1.2-1-any.pkg.tar.xz'' then ex_foo_1_2
      else ex_bar_1_0)"

definition ex_services :: "ftsent list option \<Rightarrow> alpm_pkg_meta list \<Rightarrow> services" where
  "ex_services scan db =
     \<lparr>alpm_compute_md5sum = (\<lambda>path. ''0cc175b9''),
      alpm_compute_sha256sum = (\<lambda>path. ''ca978112''),
      alpm_pkg_vercmp = ex_vercmp,
      alpm_pkg_load_metadata = ex_load_metadata,
      alpm_db_populate = (\<lambda>f. if f = None then [] else db),
      fts_open = (\<lambda>paths. scan)\<rparr>"

definition ex_visit :: "fts_info \<Rightarrow> string \<Rightarrow> nat \<Rightarrow> ftsent" where
  "ex_visit i p l = \<lparr>fts_info = i, fts_path = p, fts_level = l\<rparr>"

definition ex_scan :: "string list \<Rightarrow> ftsent list" where
  "ex_scan fs = ex_visit FTS_D ''pkgs'' 0 # map (\<lambda>f. ex_visit FTS_F f 1) fs @ [ex_visit FTS_DP ''pkgs'' 0]"

definition ex_world :: world where
  "ex_world =
     \<lparr>files = [''repo.db.tar.gz'' \<mapsto> Archive [(''foo-1.0/desc'', ''''), (''foo-1.0/depends'', '''')] True,
               ''pkgs/foo-1.0-1-any.pkg.tar.xz'' \<mapsto> Regular,
               ''pkgs/foo-1.1-1-any.pkg.tar.xz'' \<mapsto> Regular,
               ''pkgs/foo-1.2-1-any.pkg.tar.xz'' \<mapsto> Regular],
      locked = {},
      stdio = []\<rparr>"

text \<open>
  The same world with the archive and the oldest build of \<open>foo\<close> protected: \<^verbatim>\<open>unlink\<close> of
  the one and opening the other for writing fail.
\<close>

definition ex_world_locked :: world where
  "ex_world_locked = ex_world\<lparr>locked := {''repo.db.tar.gz'', ''pkgs/foo-1.0-1-any.pkg.tar.xz''}\<rparr>"

text \<open>A world without the archive, and a record of \<open>foo\<close> whose two checksums are both wrong.\<close>

definition ex_world_fresh :: world where
  "ex_world_fresh =
     \<lparr>files = [''pkgs/foo-1.0-1-any.pkg.tar.xz'' \<mapsto> Regular], locked = {}, stdio = []\<rparr>"

definition ex_foo_corrupt :: alpm_pkg_meta where
  "ex_foo_corrupt = ex_foo_1_0\<lparr>md5sum := ''ffffffff'', sha256sum := ''ffffffff''\<rparr>"

text \<open>A directory with a package, a text file and a directory whose name contains \<open>.pkg.tar\<close>.\<close>

definition ex_tree :: "(string \<times> fs_node) list" where
  "ex_tree =
     [(''repo'', Directory
        [(''old.pkg.tar.d'', Directory [(''README'', File)]),
         (''foo-1.0-1-any.PKG.TAR.xz'', File),
         (''notes.txt'', File),
         (''fifo.pkg.tar'', Special)])]"

text \<open>The record of \<open>foo\<close> 1.0 with its two licenses in one list item, a line break between them.\<close>

definition ex_foo_one_item :: alpm_pkg_meta where
  "ex_foo_one_item = ex_foo_1_0\<lparr>license := [''GPL\<newline>MIT'']\<rparr>"

text \<open>
  The world with the archive of \<open>foo\<close> 1.1 and the older build 1.0 in a place where files
  cannot be removed.
\<close>

definition ex_world_kept :: world where
  "ex_world_kept =
     \<lparr>files = [''repo.db.tar.gz'' \<mapsto> Archive [(''foo-1.1/desc'', []), (''foo-1.1/depends'', [])] True,
               ''pkgs/foo-1.0-1-any.pkg.tar.xz'' \<mapsto> Regular,
               ''pkgs/foo-1.1-1-any.pkg.tar.xz'' \<mapsto> Regular],
      locked = {''pkgs/foo-1.0-1-any.pkg.tar.xz''},
      stdio = []\<rparr>"

section \<open>The layout of a desc entry\<close>

lemma write_list_loop_eq:
  "write_list_loop b lst = b @ concat (map (\<lambda>v. v @ ''\<newline>'') lst)"
  by (induction lst arbitrary: b) (simp_all add: buffer_printf_def)

lemma write_list_eq: "write_list b header lst = b @ spec_list_field header lst"
  by (simp add: write_list_def write_list_loop_eq buffer_printf_def buffer_putc_def
      spec_list_field_def)

lemma write_string_eq: "write_string b header str = b @ spec_scalar_field header str"
  by (simp add: write_string_def buffer_printf_def spec_scalar_field_def)

lemma write_long_eq: "write_long b header v = b @ spec_scalar_field header (printf_ld v)"
  by (simp add: write_long_def buffer_printf_def spec_scalar_field_def)

lemma strrchr_None: "strrchr s c = None \<longleftrightarrow> c \<notin> set s"
  by (induction s) (auto split: option.splits)

lemma strrchr_Some:
  "strrchr s c = Some r \<Longrightarrow> \<exists>p t. s = p @ c # t \<and> r = c # t \<and> c \<notin> set t"
proof (induction s arbitrary: r)
  case Nil
  then show ?case by simp
next
  case (Cons x xs)
  show ?case
  proof (cases "strrchr xs c")
    case None
    with Cons.prems have "x = c" "r = x # xs"
      by (auto split: if_splits)
    moreover from None have "c \<notin> set xs"
      by (simp add: strrchr_None)
    ultimately show ?thesis
      by (intro exI[of _ "[]"] exI[of _ xs]) simp
  next
    case (Some r')
    with Cons.prems have "r = r'" by simp
    with Cons.IH[of r'] Some obtain p t where "xs = p @ c # t" "r = c # t" "c \<notin> set t"
      by auto
    then show ?thesis
      by (intro exI[of _ "x # p"] exI[of _ t]) simp
  qed
qed

lemma base_name_eq:
  "(case strrchr path CHR ''/'' of Some r \<Rightarrow> tl r | None \<Rightarrow> path) = spec_base_name path"
proof (cases "strrchr path CHR ''/''")
  case None
  then have "CHR ''/'' \<notin> set path"
    by (simp add: strrchr_None)
  then have tw: "takeWhile (\<lambda>c. c \<noteq> CHR ''/'') (rev path) = rev path"
    by (intro takeWhile_eq_all_conv[THEN iffD2]) auto
  have "spec_base_name path = path"
    unfolding spec_base_name_def by (simp only: tw rev_rev_ident)
  with None show ?thesis by simp
next
  case (Some r)
  from strrchr_Some[OF Some] obtain p t
    where *: "path = p @ CHR ''/'' # t" "r = CHR ''/'' # t" "CHR ''/'' \<notin> set t"
    by auto
  then have "takeWhile (\<lambda>c. c \<noteq> CHR ''/'') (rev path) = rev t"
    by (simp add: takeWhile_append)
  then have "spec_base_name path = t"
    unfolding spec_base_name_def by (simp only: rev_rev_ident)
  with Some * show ?thesis by simp
qed

lemma write_desc_file_eq: "write_desc_file sv pkg b = b @ spec_desc_blob sv pkg"
  unfolding write_desc_file_def Let_def base_name_eq write_string_eq write_long_eq
    write_list_eq spec_desc_blob_def
  by simp

lemma write_depends_file_eq: "write_depends_file pkg b = b @ spec_depends_blob pkg"
  unfolding write_depends_file_def Let_def write_list_eq spec_depends_blob_def
  by simp

lemma snprintf_entry_path:
  "snprintf PATH_MAX ''%s-%s/%s'' [S n, S v, S f] = take (PATH_MAX - 1) (n @ ''-'' @ v @ ''/'' @ f)"
  by (simp add: snprintf_def)

lemma repo_write_pkg_open:
  assumes "files w f = Some (Archive es fin)"
  shows "repo_write_pkg sv (\<lparr>archive = Some f, buf = b\<rparr>, w) pkg =
    (\<lparr>archive = Some f, buf = spec_depends_blob pkg\<rparr>,
     w\<lparr>files := (files w)(f \<mapsto> Archive (es @ spec_entries sv pkg) fin)\<rparr>)"
  using assms
  by (simp add: repo_write_pkg_def Let_def buffer_clear_def write_desc_file_eq
      write_depends_file_eq snprintf_entry_path archive_write_buffer_def spec_entries_def
      del: format.simps)

text \<open>
  C8. For every record, the writer's entry \<open><name>-<version>/desc\<close> holds the fields FILENAME
  (the base name of the backing file), NAME, VERSION, DESC, CSIZE, ISIZE, MD5SUM, SHA256SUM,
  URL, LICENSE, ARCH, BUILDDATE, PACKAGER in this order, a scalar field as the header line,
  the value and an empty line, the list field LICENSE as the header line, one value per
  line and an empty line, the header being there for an empty list too. The buffer that
  \<open>write_desc_file\<close> fills is this text, and \<open>repo_write_pkg\<close> appends it to an open archive
  under the path \<open><name>-<version>/desc\<close> (cut at \<open>PATH_MAX - 1\<close> characters), followed by the
  depends entry.
\<close>

theorem desc_entry_layout:
  "write_desc_file sv pkg [] =
     spec_scalar_field ''FILENAME'' (spec_base_name (filename pkg)) @
     spec_scalar_field ''NAME'' (name pkg) @
     spec_scalar_field ''VERSION'' (version pkg) @
     spec_scalar_field ''DESC'' (desc pkg) @
     spec_scalar_field ''CSIZE'' (printf_ld (size_pkg pkg)) @
     spec_scalar_field ''ISIZE'' (printf_ld (isize pkg)) @
     spec_scalar_field ''MD5SUM'' (alpm_compute_md5sum sv (filename pkg)) @
     spec_scalar_field ''SHA256SUM'' (alpm_compute_sha256sum sv (filename pkg)) @
     spec_scalar_field ''URL'' (url pkg) @
     spec_list_field ''LICENSE'' (license pkg) @
     spec_scalar_field ''ARCH'' (arch pkg) @
     spec_scalar_field ''BUILDDATE'' (printf_ld (builddate pkg)) @
     spec_scalar_field ''PACKAGER'' (packager pkg)
   \<and> spec_list_field h [] = ''%'' @ h @ ''%\<newline>\<newline>''
   \<and> (files w f = Some (Archive es fin) \<longrightarrow>
        files (snd (repo_write_pkg sv (\<lparr>archive = Some f, buf = b\<rparr>, w) pkg)) f =
          Some (Archive
            (es @ [(take (PATH_MAX - 1) (name pkg @ ''-'' @ version pkg @ ''/desc''),
                    write_desc_file sv pkg []),
                   (take (PATH_MAX - 1) (name pkg @ ''-'' @ version pkg @ ''/depends''),
                    write_depends_file pkg [])]) fin))"
proof (intro conjI impI)
  show "write_desc_file sv pkg [] =
     spec_scalar_field ''FILENAME'' (spec_base_name (filename pkg)) @
     spec_scalar_field ''NAME'' (name pkg) @
     spec_scalar_field ''VERSION'' (version pkg) @
     spec_scalar_field ''DESC'' (desc pkg) @
     spec_scalar_field ''CSIZE'' (printf_ld (size_pkg pkg)) @
     spec_scalar_field ''ISIZE'' (printf_ld (isize pkg)) @
     spec_scalar_field ''MD5SUM'' (alpm_compute_md5sum sv (filename pkg)) @
     spec_scalar_field ''SHA256SUM'' (alpm_compute_sha256sum sv (filename pkg)) @
     spec_scalar_field ''URL'' (url pkg) @
     spec_list_field ''LICENSE'' (license pkg) @
     spec_scalar_field ''ARCH'' (arch pkg) @
     spec_scalar_field ''BUILDDATE'' (printf_ld (builddate pkg)) @
     spec_scalar_field ''PACKAGER'' (packager pkg)"
    using write_desc_file_eq[of sv pkg "[]"] by (simp add: spec_desc_blob_def)
  show "spec_list_field h [] = ''%'' @ h @ ''%\<newline>\<newline>''"
    by (simp add: spec_list_field_def)
  assume "files w f = Some (Archive es fin)"
  then show "files (snd (repo_write_pkg sv (\<lparr>archive = Some f, buf = b\<rparr>, w) pkg)) f =
          Some (Archive
            (es @ [(take (PATH_MAX - 1) (name pkg @ ''-'' @ version pkg @ ''/desc''),
                    write_desc_file sv pkg []),
                   (take (PATH_MAX - 1) (name pkg @ ''-'' @ version pkg @ ''/depends''),
                    write_depends_file pkg [])]) fin)"
    by (simp add: repo_write_pkg_open spec_entries_def write_desc_file_eq
        write_depends_file_eq)
qed

lemmas ex_defs = ex_services_def ex_scan_def ex_visit_def ex_world_def ex_world_locked_def
  ex_load_metadata_def ex_vercmp_def ex_rank_def ex_foo_1_0_def ex_foo_1_1_def ex_foo_1_2_def
  ex_bar_1_0_def ex_pkg_def

lemmas ex_defs' = ex_defs ex_world_fresh_def ex_foo_corrupt_def

lemma char_eq_char_of: "(c = char_of n) = (take_bit 8 n = of_char c)"
  by (subst eq_commute) (rule char_of_eq_iff)

theorem desc_entry_layout_witness:
  "files ex_world ''repo.db.tar.gz'' =
     Some (Archive [(''foo-1.0/desc'', ''''), (''foo-1.0/depends'', '''')] True)
   \<and> write_desc_file (ex_services None []) ex_foo_1_1 [] =
       ''%FILENAME%\<newline>foo-1.1-1-any.pkg.tar.xz\<newline>\<newline>%NAME%\<newline>foo\<newline>\<newline>%VERSION%\<newline>1.1\<newline>\<newline>%DESC%\<newline>a package\<newline>\<newline>%CSIZE%\<newline>1234\<newline>\<newline>%ISIZE%\<newline>5678\<newline>\<newline>%MD5SUM%\<newline>0cc175b9\<newline>\<newline>%SHA256SUM%\<newline>ca978112\<newline>\<newline>%URL%\<newline>http://example.org\<newline>\<newline>%LICENSE%\<newline>GPL\<newline>MIT\<newline>\<newline>%ARCH%\<newline>any\<newline>\<newline>%BUILDDATE%\<newline>1380000000\<newline>\<newline>%PACKAGER%\<newline>nobody\<newline>\<newline>''
   \<and> map fst (case files (snd (repo_write_pkg (ex_services None [])
          (\<lparr>archive = Some ''repo.db.tar.gz'', buf = []\<rparr>, ex_world) ex_foo_1_1)) ''repo.db.tar.gz'' of
        Some (Archive es fin) \<Rightarrow> es | _ \<Rightarrow> []) =
       [''foo-1.0/desc'', ''foo-1.0/depends'', ''foo-1.1/desc'', ''foo-1.1/depends'']"
proof -
  have a: "files ex_world ''repo.db.tar.gz'' =
     Some (Archive [(''foo-1.0/desc'', ''''), (''foo-1.0/depends'', '''')] True)"
    by (simp add: ex_world_def)
  from desc_entry_layout[of "ex_services None []" ex_foo_1_1 "[]" ex_world "''repo.db.tar.gz''"
      "[(''foo-1.0/desc'', ''''), (''foo-1.0/depends'', '''')]" True "[]"] a
  show ?thesis
    by (simp add: ex_services_def ex_foo_1_1_def ex_pkg_def spec_scalar_field_def
        spec_list_field_def spec_base_name_def printf_ld_def digit_char_def PATH_MAX_def)
qed

section \<open>UPDATE: writing the archive\<close>

lemma repo_write_pkg_states_open:
  assumes "files w f = Some (Archive es fin)"
  shows "repo_write_pkg_states sv (\<lparr>archive = Some f, buf = b\<rparr>, w) pkg =
    [w\<lparr>files := (files w)(f \<mapsto> Archive (es @ take 1 (spec_entries sv pkg)) fin)\<rparr>,
     w\<lparr>files := (files w)(f \<mapsto> Archive (es @ spec_entries sv pkg) fin)\<rparr>]"
  using assms
  by (simp add: repo_write_pkg_states_def Let_def buffer_clear_def write_desc_file_eq
      write_depends_file_eq snprintf_entry_path archive_write_buffer_def spec_entries_def
      del: format.simps)

lemma repo_write_pkgs_open:
  assumes "files w f = Some (Archive es fin)"
  shows "\<exists>b' w'. repo_write_pkgs sv pkgs (\<lparr>archive = Some f, buf = b\<rparr>, w) =
       (\<lparr>archive = Some f, buf = b'\<rparr>, w')
     \<and> files w' = (files w)(f \<mapsto> Archive (es @ concat (map (spec_entries sv) pkgs)) fin)"
  using assms
proof (induction pkgs arbitrary: w es b)
  case Nil
  then have "files w = (files w)(f \<mapsto> Archive (es @ concat (map (spec_entries sv) [])) fin)"
    by (simp add: fun_upd_idem)
  moreover have "repo_write_pkgs sv [] (\<lparr>archive = Some f, buf = b\<rparr>, w) =
      (\<lparr>archive = Some f, buf = b\<rparr>, w)"
    by simp
  ultimately show ?case
    by (intro exI conjI)
next
  case (Cons p pkgs)
  let ?w = "w\<lparr>files := (files w)(f \<mapsto> Archive (es @ spec_entries sv p) fin)\<rparr>"
  have "files ?w f = Some (Archive (es @ spec_entries sv p) fin)"
    by simp
  from Cons.IH[OF this, of "spec_depends_blob p"] obtain b' w'
    where eq: "repo_write_pkgs sv pkgs (\<lparr>archive = Some f, buf = spec_depends_blob p\<rparr>, ?w) =
       (\<lparr>archive = Some f, buf = b'\<rparr>, w')"
      and fw: "files w' = (files ?w)(f \<mapsto> Archive ((es @ spec_entries sv p) @ concat (map (spec_entries sv) pkgs)) fin)"
    by (elim exE conjE)
  from Cons.prems eq
  have step: "repo_write_pkgs sv (p # pkgs) (\<lparr>archive = Some f, buf = b\<rparr>, w) =
       (\<lparr>archive = Some f, buf = b'\<rparr>, w')"
    by (simp add: repo_write_pkg_open)
  from fw have "files w' = (files w)(f \<mapsto> Archive (es @ concat (map (spec_entries sv) (p # pkgs))) fin)"
    by simp
  with step show ?case
    by (intro exI conjI)
qed

lemma repo_write_pkgs_states_open:
  assumes "files w f = Some (Archive es fin)"
    and "s \<in> set (repo_write_pkgs_states sv pkgs (\<lparr>archive = Some f, buf = b\<rparr>, w))"
  shows "\<exists>k. files s = (files w)(f \<mapsto> Archive (es @ take k (concat (map (spec_entries sv) pkgs))) fin)"
  using assms
proof (induction pkgs arbitrary: w es b)
  case Nil
  then show ?case by simp
next
  case (Cons p pkgs)
  let ?new = "concat (map (spec_entries sv) pkgs)"
  let ?w = "w\<lparr>files := (files w)(f \<mapsto> Archive (es @ spec_entries sv p) fin)\<rparr>"
  have len: "length (spec_entries sv p) = 2"
    by (simp add: spec_entries_def)
  from Cons.prems consider
      "s = w\<lparr>files := (files w)(f \<mapsto> Archive (es @ take 1 (spec_entries sv p)) fin)\<rparr>"
    | "s = ?w"
    | "s \<in> set (repo_write_pkgs_states sv pkgs (\<lparr>archive = Some f, buf = spec_depends_blob p\<rparr>, ?w))"
    by (auto simp: repo_write_pkg_states_open repo_write_pkg_open)
  then show ?case
  proof cases
    case 1
    then have "files s = (files w)(f \<mapsto> Archive (es @ take 1 (concat (map (spec_entries sv) (p # pkgs)))) fin)"
      using len by simp
    then show ?thesis by (rule exI)
  next
    case 2
    then have "files s = (files w)(f \<mapsto> Archive (es @ take 2 (concat (map (spec_entries sv) (p # pkgs)))) fin)"
      using len by simp
    then show ?thesis by (rule exI)
  next
    case 3
    have "files ?w f = Some (Archive (es @ spec_entries sv p) fin)"
      by simp
    from Cons.IH[OF this 3] obtain k
      where "files s = (files ?w)(f \<mapsto> Archive ((es @ spec_entries sv p) @ take k ?new) fin)"
      by (elim exE)
    then have "files s = (files w)(f \<mapsto> Archive (es @ take (2 + k) (concat (map (spec_entries sv) (p # pkgs)))) fin)"
      using len by simp
    then show ?thesis by (rule exI)
  qed
qed

lemma update_db_write_files:
  assumes "repopath \<notin> locked w"
  shows "files (update_db_write sv repopath (w, cache, True)) =
     (files w)(repopath \<mapsto> Archive (concat (map (spec_entries sv) cache)) True)"
proof -
  let ?w0 = "printf w '':: Writing database to disk...\<newline>'' []"
  let ?w1 = "?w0\<lparr>files := (files ?w0)(repopath \<mapsto> Archive [] False)\<rparr>"
  let ?r1 = "\<lparr>archive = Some repopath, buf = []\<rparr>"
  let ?new = "concat (map (spec_entries sv) cache)"
  have new: "repo_write_new ?w0 repopath = (?r1, ?w1)"
    using assms by (simp add: repo_write_new_def archive_write_open_filename_def printf_def)
  have f1: "files ?w1 repopath = Some (Archive [] False)"
    by simp
  have fw: "files ?w1 = (files w)(repopath \<mapsto> Archive [] False)"
    by (simp add: printf_def)
  from repo_write_pkgs_open[OF f1, of sv cache "[]"] obtain b' w'
    where wend: "repo_write_pkgs sv cache (?r1, ?w1) = (\<lparr>archive = Some repopath, buf = b'\<rparr>, w')"
      and fe: "files w' = (files ?w1)(repopath \<mapsto> Archive ([] @ ?new) False)"
    by (elim exE conjE)
  let ?wc = "repo_write_close (\<lparr>archive = Some repopath, buf = b'\<rparr>, w')"
  have fc: "files ?wc = (files w)(repopath \<mapsto> Archive ?new True)"
    using fe fw by (simp add: repo_write_close_def archive_write_close_def)
  have "update_db_write sv repopath (w, cache, True) =
      printf ?wc ''repo %s updated successfully\<newline>'' [S repopath]"
    by (simp add: update_db_write_def Let_def new wend del: format.simps)
  then have "files (update_db_write sv repopath (w, cache, True)) = files ?wc"
    by (simp add: printf_def del: format.simps)
  with fc show ?thesis
    by simp
qed

text \<open>
  C1, as the code has it. When UPDATE rewrites the archive and the path can be opened, the
  writer works on the file at \<open>repopath\<close> itself: there is no temporary file and no rename.
  The first step replaces the old archive by an empty, unfinished one; every later step
  before the last leaves an unfinished archive that holds the first entries of the new one;
  only the closing step gives the complete new archive. No other path is touched.
\<close>

theorem archive_written_in_place:
  assumes "repopath \<notin> locked w"
  shows "update_db_write_states sv repopath (w, cache, True) \<noteq> []
    \<and> files (hd (update_db_write_states sv repopath (w, cache, True))) =
        (files w)(repopath \<mapsto> Archive [] False)
    \<and> (\<forall>s \<in> set (butlast (update_db_write_states sv repopath (w, cache, True))).
          \<exists>k. files s =
            (files w)(repopath \<mapsto> Archive (take k (concat (map (spec_entries sv) cache))) False))
    \<and> files (last (update_db_write_states sv repopath (w, cache, True))) =
        (files w)(repopath \<mapsto> Archive (concat (map (spec_entries sv) cache)) True)
    \<and> files (update_db_write sv repopath (w, cache, True)) =
        files (last (update_db_write_states sv repopath (w, cache, True)))"
proof -
  let ?w0 = "printf w '':: Writing database to disk...\<newline>'' []"
  let ?w1 = "?w0\<lparr>files := (files ?w0)(repopath \<mapsto> Archive [] False)\<rparr>"
  let ?r1 = "\<lparr>archive = Some repopath, buf = []\<rparr>"
  let ?new = "concat (map (spec_entries sv) cache)"
  have new: "repo_write_new ?w0 repopath = (?r1, ?w1)"
    using assms by (simp add: repo_write_new_def archive_write_open_filename_def printf_def)
  have f1: "files ?w1 repopath = Some (Archive [] False)"
    by simp
  have fw: "files ?w1 = (files w)(repopath \<mapsto> Archive [] False)"
    by (simp add: printf_def)
  from repo_write_pkgs_open[OF f1, of sv cache "[]"] obtain b' w'
    where wend: "repo_write_pkgs sv cache (?r1, ?w1) = (\<lparr>archive = Some repopath, buf = b'\<rparr>, w')"
      and fe: "files w' = (files ?w1)(repopath \<mapsto> Archive ([] @ ?new) False)"
    by (elim exE conjE)
  let ?wc = "repo_write_close (\<lparr>archive = Some repopath, buf = b'\<rparr>, w')"
  have fc: "files ?wc = (files w)(repopath \<mapsto> Archive ?new True)"
    using fe fw by (simp add: repo_write_close_def archive_write_close_def)
  have states: "update_db_write_states sv repopath (w, cache, True) =
      ?w1 # repo_write_pkgs_states sv cache (?r1, ?w1) @ [?wc]"
    by (simp add: update_db_write_states_def Let_def new wend del: format.simps)
  have mid: "\<exists>k. files s = (files w)(repopath \<mapsto> Archive (take k ?new) False)"
    if "s \<in> set (?w1 # repo_write_pkgs_states sv cache (?r1, ?w1))" for s
  proof (cases "s = ?w1")
    case True
    with fw have "files s = (files w)(repopath \<mapsto> Archive (take 0 ?new) False)"
      by simp
    then show ?thesis by (rule exI)
  next
    case False
    with that have "s \<in> set (repo_write_pkgs_states sv cache (?r1, ?w1))"
      by simp
    from repo_write_pkgs_states_open[OF f1 this] obtain k
      where "files s = (files ?w1)(repopath \<mapsto> Archive ([] @ take k ?new) False)"
      by (elim exE)
    with fw have "files s = (files w)(repopath \<mapsto> Archive (take k ?new) False)"
      by simp
    then show ?thesis by (rule exI)
  qed
  have bl: "butlast (update_db_write_states sv repopath (w, cache, True)) =
      ?w1 # repo_write_pkgs_states sv cache (?r1, ?w1)"
    unfolding states by (simp add: butlast_append)
  have la: "last (update_db_write_states sv repopath (w, cache, True)) = ?wc"
    unfolding states by simp
  have hd: "hd (update_db_write_states sv repopath (w, cache, True)) = ?w1"
    unfolding states by simp
  have "update_db_write sv repopath (w, cache, True) =
      printf ?wc ''repo %s updated successfully\<newline>'' [S repopath]"
    by (simp add: update_db_write_def Let_def new wend del: format.simps)
  then have fin: "files (update_db_write sv repopath (w, cache, True)) = files ?wc"
    by (simp add: printf_def del: format.simps)
  show ?thesis
    unfolding bl la hd fin using states fw fc mid by simp
qed

theorem archive_written_in_place_witness:
  "''repo.db.tar.gz'' \<notin> locked ex_world
   \<and> archive_view ex_world ''repo.db.tar.gz'' = Some ([''foo-1.0/desc'', ''foo-1.0/depends''], True)
   \<and> archive_view (hd (update_db_write_states (ex_services None []) ''repo.db.tar.gz''
        (ex_world, [ex_foo_1_1], True))) ''repo.db.tar.gz'' = Some ([], False)
   \<and> archive_view (last (update_db_write_states (ex_services None []) ''repo.db.tar.gz''
        (ex_world, [ex_foo_1_1], True))) ''repo.db.tar.gz'' =
       Some ([''foo-1.1/desc'', ''foo-1.1/depends''], True)"
proof -
  have a: "''repo.db.tar.gz'' \<notin> locked ex_world"
    by (simp add: ex_world_def)
  have b: "archive_view ex_world ''repo.db.tar.gz'' = Some ([''foo-1.0/desc'', ''foo-1.0/depends''], True)"
    by (simp add: ex_world_def archive_view_def)
  from archive_written_in_place[OF a, of "ex_services None []" "[ex_foo_1_1]"] a b
  show ?thesis
    by (simp add: archive_view_def spec_entries_def PATH_MAX_def ex_foo_1_1_def ex_pkg_def)
qed

text \<open>
  C1 as stated fails. The archive holds \<open>foo\<close> 1.0 and the scan finds the build 1.1: while
  UPDATE writes, the path holds first an empty unfinished archive, then unfinished archives
  with one and with two entries, and the complete new archive only after the last step.
\<close>

theorem atomic_replace_counterexample:
  "archive_view ex_world ''repo.db.tar.gz'' = Some ([''foo-1.0/desc'', ''foo-1.0/depends''], True)
   \<and> archive_views
        (update_db_states (ex_services (Some (ex_scan [''pkgs/foo-1.1-1-any.pkg.tar.xz''])) [ex_foo_1_0])
           ex_world ''repo.db.tar.gz'' [''pkgs''] 0) ''repo.db.tar.gz'' =
       [Some ([], False),
        Some ([''foo-1.1/desc''], False),
        Some ([''foo-1.1/desc'', ''foo-1.1/depends''], False),
        Some ([''foo-1.1/desc'', ''foo-1.1/depends''], True)]"
  by (simp add: ex_defs update_db_states_def update_db_scan_def update_db_load_def
      update_db_candidate_def find_packages_def fts_children_def stat_def verify_pkg_def
      printf_def Let_def unlink_def alpm_pkghash_remove_def alpm_pkghash_add_def alpm_list_add_def
      fnmatch_def filter_pkg_def tolower_def update_db_write_states_def repo_write_new_def
      archive_write_open_filename_def repo_write_pkg_states_def repo_write_pkg_def
      archive_write_buffer_def repo_write_close_def archive_write_close_def buffer_clear_def
      snprintf_def PATH_MAX_def archive_view_def archive_views_def
      write_desc_file_eq write_depends_file_eq)

section \<open>UPDATE: one candidate against the cached record\<close>

lemma pkghash_find_append:
  "alpm_pkghash_find (xs @ ys) n =
     (case alpm_pkghash_find xs n of Some p \<Rightarrow> Some p | None \<Rightarrow> alpm_pkghash_find ys n)"
  by (induction xs) auto

lemma pkghash_find_filter_other: "alpm_pkghash_find (filter (\<lambda>p. name p \<noteq> n) xs) n = None"
  by (induction xs) auto

lemma pkghash_find_add: "alpm_pkghash_find (alpm_pkghash_add cache p) (name p) = Some p"
  by (simp add: alpm_pkghash_add_def pkghash_find_append pkghash_find_filter_other)

lemma update_db_candidate_older:
  assumes "alpm_pkghash_find cache (name (alpm_pkg_load_metadata sv path)) = Some old"
    and "alpm_pkg_vercmp sv (version (alpm_pkg_load_metadata sv path)) (version old) \<noteq> 1"
  shows "update_db_candidate sv clean (w, cache, dirty) path =
     (if alpm_pkg_vercmp sv (version (alpm_pkg_load_metadata sv path)) (version old) = - 1 \<and> clean \<noteq> 0
      then snd (unlink w (filename (alpm_pkg_load_metadata sv path))) else w, cache, dirty)"
  using assms by (simp add: update_db_candidate_def Let_def del: format.simps)

lemma update_db_candidate_newer:
  assumes "alpm_pkghash_find cache (name (alpm_pkg_load_metadata sv path)) = Some old"
    and "alpm_pkg_vercmp sv (version (alpm_pkg_load_metadata sv path)) (version old) = 1"
  shows "update_db_candidate sv clean (w, cache, dirty) path =
     (let c = alpm_pkg_load_metadata sv path;
          w = printf w ''UPDATING: %s-%s\<newline>'' [S (name c), S (version c)]
      in (if clean \<noteq> 0 then snd (unlink w (filename old)) else w,
       alpm_pkghash_add (alpm_pkghash_remove cache c) c, True))"
  using assms by (simp add: update_db_candidate_def Let_def del: format.simps)

lemma unlink_frame:
  "locked (snd (unlink w x)) = locked w
   \<and> (files (snd (unlink w x)) q = files w q \<or> q \<notin> locked w \<and> files (snd (unlink w x)) q = None)"
  by (simp add: unlink_def)

lemma unlink_done:
  "files (snd (unlink w q)) q = (if q \<in> locked w then files w q else None)"
  by (simp add: unlink_def)

lemma printf_frame: "locked (printf v fmt args) = locked v" "files (printf v fmt args) = files v"
  by (simp_all add: printf_def)

lemma update_db_candidate_absent:
  assumes "alpm_pkghash_find cache (name (alpm_pkg_load_metadata sv path)) = None"
  shows "update_db_candidate sv clean (w, cache, dirty) path =
     (let c = alpm_pkg_load_metadata sv path
      in (printf w ''ADDING: %s-%s\<newline>'' [S (name c), S (version c)],
          alpm_pkghash_add cache c, True))"
  using assms by (simp add: update_db_candidate_def Let_def del: format.simps)

lemma update_db_candidate_frame:
  assumes "update_db_candidate sv clean (w, cache, dirty) p = (w', cache', dirty')"
  shows "locked w' = locked w
    \<and> (files w' q = files w q \<or> clean \<noteq> 0 \<and> q \<notin> locked w \<and> files w' q = None)"
proof (cases "alpm_pkghash_find cache (name (alpm_pkg_load_metadata sv p))")
  case None
  from assms update_db_candidate_absent[OF None, of clean w dirty] show ?thesis
    by (auto simp: Let_def printf_frame simp del: format.simps)
next
  case (Some old)
  let ?c = "alpm_pkg_load_metadata sv p"
  show ?thesis
  proof (cases "alpm_pkg_vercmp sv (version ?c) (version old) = 1")
    case True
    let ?w = "printf w ''UPDATING: %s-%s\<newline>'' [S (name ?c), S (version ?c)]"
    from assms update_db_candidate_newer[OF Some True, of clean w dirty]
    have "w' = (if clean \<noteq> 0 then snd (unlink ?w (filename old)) else ?w)"
      by (simp add: Let_def del: format.simps)
    with unlink_frame[of ?w "filename old" q] show ?thesis
      by (auto simp: printf_frame simp del: format.simps)
  next
    case False
    from assms update_db_candidate_older[OF Some False, of clean w dirty]
    have "w' = (if alpm_pkg_vercmp sv (version ?c) (version old) = - 1 \<and> clean \<noteq> 0
                then snd (unlink w (filename ?c)) else w)"
      by simp
    with unlink_frame[of w "filename ?c" q] show ?thesis
      by auto
  qed
qed

lemma update_db_merge_frame:
  assumes "update_db_merge sv clean ps (w, cache, dirty) = (w', cache', dirty')"
  shows "locked w' = locked w
    \<and> (files w' q = files w q \<or> clean \<noteq> 0 \<and> q \<notin> locked w \<and> files w' q = None)"
  using assms
proof (induction ps arbitrary: w cache dirty)
  case Nil
  then show ?case by simp
next
  case (Cons p ps)
  obtain w1 cache1 dirty1
    where step: "update_db_candidate sv clean (w, cache, dirty) p = (w1, cache1, dirty1)"
    by (cases "update_db_candidate sv clean (w, cache, dirty) p") auto
  with Cons.prems have "update_db_merge sv clean ps (w1, cache1, dirty1) = (w', cache', dirty')"
    by simp
  from Cons.IH[OF this] update_db_candidate_frame[OF step, of q] show ?case
    by auto
qed

lemma update_db_merge_append:
  "update_db_merge sv clean (ps @ qs) st = update_db_merge sv clean qs (update_db_merge sv clean ps st)"
  by (induction ps arbitrary: st) simp_all

lemma verify_pkg_frame:
  "files (snd (verify_pkg sv w pkg deep)) = files w \<and> locked (snd (verify_pkg sv w pkg deep)) = locked w"
  by (simp add: verify_pkg_def warn_def warnx_def)

lemma update_db_prune_frame:
  assumes "update_db_prune sv pkgs (w, cache, dirty) = (w', cache', dirty')"
  shows "files w' = files w \<and> locked w' = locked w"
  using assms
proof (induction pkgs arbitrary: w cache dirty)
  case Nil
  then show ?case by simp
next
  case (Cons m pkgs)
  obtain r w1 where v: "verify_pkg sv w m False = (r, w1)"
    by (cases "verify_pkg sv w m False") auto
  with verify_pkg_frame[of sv w m False] have f: "files w1 = files w" "locked w1 = locked w"
    by simp_all
  show ?case
  proof (cases "r = 1")
    case True
    with Cons.prems v
    have "update_db_prune sv pkgs
        (printf w1 ''REMOVING: %s-%s\<newline>'' [S (name m), S (version m)],
         alpm_pkghash_remove cache m, True) = (w', cache', dirty')"
      by (simp del: format.simps)
    from Cons.IH[OF this] f show ?thesis
      by (simp add: printf_frame del: format.simps)
  next
    case False
    with Cons.prems v have "update_db_prune sv pkgs (w1, cache, dirty) = (w', cache', dirty')"
      by (simp del: format.simps)
    from Cons.IH[OF this] f show ?thesis
      by simp
  qed
qed

lemma update_db_load_frame:
  assumes "update_db_load sv w repopath = (w0, cache0, dirty0)"
  shows "files w0 = files w \<and> locked w0 = locked w"
proof (cases "stat w repopath < 0")
  case True
  with assms show ?thesis
    by (auto simp: update_db_load_def warnx_def simp del: format.simps)
next
  case False
  let ?w = "printf w '':: Reading existing database...\<newline>'' []"
  from False assms
  have "update_db_prune sv (alpm_db_populate sv (files ?w repopath))
      (?w, alpm_db_populate sv (files ?w repopath), False) = (w0, cache0, dirty0)"
    by (simp add: update_db_load_def Let_def del: format.simps)
  from update_db_prune_frame[OF this] show ?thesis
    by (simp add: printf_frame del: format.simps)
qed

lemma archive_write_buffer_frame:
  "a = None \<or> a = Some f \<Longrightarrow> q \<noteq> f \<Longrightarrow>
   files (archive_write_buffer w a path b) q = files w q
   \<and> locked (archive_write_buffer w a path b) = locked w"
  by (auto simp: archive_write_buffer_def split: option.splits disk_file.splits)

lemma repo_write_pkg_frame:
  assumes "archive r = None \<or> archive r = Some f" and "q \<noteq> f"
  shows "files (snd (repo_write_pkg sv (r, w) pkg)) q = files w q
    \<and> locked (snd (repo_write_pkg sv (r, w) pkg)) = locked w
    \<and> archive (fst (repo_write_pkg sv (r, w) pkg)) = archive r"
  using assms
  by (simp add: repo_write_pkg_def Let_def archive_write_buffer_frame del: format.simps)

lemma repo_write_pkgs_frame:
  assumes "archive r = None \<or> archive r = Some f" and "q \<noteq> f"
  shows "files (snd (repo_write_pkgs sv pkgs (r, w))) q = files w q
    \<and> locked (snd (repo_write_pkgs sv pkgs (r, w))) = locked w
    \<and> archive (fst (repo_write_pkgs sv pkgs (r, w))) = archive r"
  using assms
proof (induction pkgs arbitrary: r w)
  case Nil
  then show ?case by simp
next
  case (Cons m pkgs)
  let ?rw = "repo_write_pkg sv (r, w) m"
  from repo_write_pkg_frame[OF Cons.prems, of sv w m]
  have 1: "files (snd ?rw) q = files w q" "locked (snd ?rw) = locked w" "archive (fst ?rw) = archive r"
    by simp_all
  with Cons.prems have "archive (fst ?rw) = None \<or> archive (fst ?rw) = Some f"
    by simp
  from Cons.IH[OF this Cons.prems(2), of "snd ?rw"] 1 show ?case
    by simp
qed

lemma update_db_write_frame:
  assumes "q \<noteq> repopath"
  shows "files (update_db_write sv repopath (w, cache, dirty)) q = files w q
    \<and> locked (update_db_write sv repopath (w, cache, dirty)) = locked w"
proof (cases dirty)
  case False
  then show ?thesis
    by (simp add: update_db_write_def printf_frame del: format.simps)
next
  case True
  let ?w0 = "printf w '':: Writing database to disk...\<newline>'' []"
  let ?rw = "repo_write_new ?w0 repopath"
  have new: "(archive (fst ?rw) = None \<or> archive (fst ?rw) = Some repopath)
      \<and> files (snd ?rw) q = files w q \<and> locked (snd ?rw) = locked w"
    using assms
    by (simp add: repo_write_new_def archive_write_open_filename_def printf_frame del: format.simps)
  let ?rw2 = "repo_write_pkgs sv cache (fst ?rw, snd ?rw)"
  from new repo_write_pkgs_frame[OF _ assms, of "fst ?rw" sv cache "snd ?rw"]
  have 2: "files (snd ?rw2) q = files w q" "locked (snd ?rw2) = locked w"
    "archive (fst ?rw2) = None \<or> archive (fst ?rw2) = Some repopath"
    by auto
  have "files (repo_write_close ?rw2) q = files (snd ?rw2) q
      \<and> locked (repo_write_close ?rw2) = locked (snd ?rw2)"
    using 2(3) assms
    by (auto simp: repo_write_close_def archive_write_close_def split: prod.splits option.splits disk_file.splits)
  with 2 True show ?thesis
    by (simp add: update_db_write_def Let_def printf_frame del: format.simps)
qed

lemma pkghash_find_filter_keep:
  "n \<noteq> k \<Longrightarrow> alpm_pkghash_find (filter (\<lambda>p. name p \<noteq> k) xs) n = alpm_pkghash_find xs n"
  by (induction xs) auto

lemma pkghash_find_add_other:
  "n \<noteq> name p \<Longrightarrow> alpm_pkghash_find (alpm_pkghash_add cache p) n = alpm_pkghash_find cache n"
  by (simp add: alpm_pkghash_add_def pkghash_find_append pkghash_find_filter_keep split: option.splits)

lemma pkghash_find_remove_other:
  "n \<noteq> name p \<Longrightarrow> alpm_pkghash_find (alpm_pkghash_remove cache p) n = alpm_pkghash_find cache n"
  by (simp add: alpm_pkghash_remove_def pkghash_find_filter_keep)

lemma update_db_candidate_other:
  assumes "name (alpm_pkg_load_metadata sv path) \<noteq> n"
    and "update_db_candidate sv clean (w, cache, dirty) path = (w', cache', dirty')"
  shows "alpm_pkghash_find cache' n = alpm_pkghash_find cache n \<and> (dirty \<longrightarrow> dirty')"
  using assms
  by (auto simp: update_db_candidate_def Let_def pkghash_find_add_other pkghash_find_remove_other
      simp del: format.simps split: option.splits if_splits)

lemma update_db_merge_other:
  assumes "\<forall>p \<in> set later. name (alpm_pkg_load_metadata sv p) \<noteq> n"
    and "update_db_merge sv clean later (w, cache, dirty) = (w', cache', dirty')"
  shows "alpm_pkghash_find cache' n = alpm_pkghash_find cache n \<and> (dirty \<longrightarrow> dirty')"
  using assms
proof (induction later arbitrary: w cache dirty)
  case Nil
  then show ?case by simp
next
  case (Cons p later)
  obtain w1 cache1 dirty1 where step: "update_db_candidate sv clean (w, cache, dirty) p = (w1, cache1, dirty1)"
    by (cases "update_db_candidate sv clean (w, cache, dirty) p") auto
  from Cons.prems have "name (alpm_pkg_load_metadata sv p) \<noteq> n"
    by simp
  from update_db_candidate_other[OF this step]
  have 1: "alpm_pkghash_find cache1 n = alpm_pkghash_find cache n" "dirty \<longrightarrow> dirty1"
    by simp_all
  from Cons.prems step have "\<forall>p \<in> set later. name (alpm_pkg_load_metadata sv p) \<noteq> n"
    and "update_db_merge sv clean later (w1, cache1, dirty1) = (w', cache', dirty')"
    by simp_all
  from Cons.IH[OF this] 1 show ?case
    by simp
qed

text \<open>
  C2, as the code has it. Take a candidate, the record \<open>old\<close> that is cached under the
  candidate's name at the moment the candidate is processed (after the pruning and after
  the earlier candidates of the scan), and let no later candidate of the scan have the same
  name. Then the index at the end of the scan holds the candidate under that name if the
  comparator reports the candidate newer (\<open>1\<close>) than \<open>old\<close>, and holds \<open>old\<close> otherwise, the
  step of the candidate leaving the index and the dirty flag as they are; so the index
  holds the candidate if and only if it is newer. On a tie the step leaves the world as it
  is: no file is removed, whatever \<open>clean\<close> is.
\<close>

theorem candidate_version_precedence:
  assumes "alpm_pkg_load_metadata sv path = c"
    and "alpm_pkghash_find cache (name c) = Some old"
    and "\<forall>p \<in> set later. name (alpm_pkg_load_metadata sv p) \<noteq> name c"
    and "update_db_merge sv clean (path # later) (w, cache, dirty) = (w', cache', dirty')"
  shows "(alpm_pkg_vercmp sv (version c) (version old) = 1 \<longrightarrow>
           alpm_pkghash_find cache' (name c) = Some c \<and> dirty')
    \<and> (alpm_pkg_vercmp sv (version c) (version old) \<noteq> 1 \<longrightarrow>
           alpm_pkghash_find cache' (name c) = Some old
           \<and> fst (snd (update_db_candidate sv clean (w, cache, dirty) path)) = cache
           \<and> snd (snd (update_db_candidate sv clean (w, cache, dirty) path)) = dirty)
    \<and> (c \<noteq> old \<longrightarrow>
           (alpm_pkghash_find cache' (name c) = Some c
            \<longleftrightarrow> alpm_pkg_vercmp sv (version c) (version old) = 1))
    \<and> (alpm_pkg_vercmp sv (version c) (version old) = 0 \<longrightarrow>
           fst (update_db_candidate sv clean (w, cache, dirty) path) = w)"
proof -
  let ?v = "alpm_pkg_vercmp sv (version c) (version old)"
  obtain w1 cache1 dirty1
    where step: "update_db_candidate sv clean (w, cache, dirty) path = (w1, cache1, dirty1)"
    by (cases "update_db_candidate sv clean (w, cache, dirty) path") auto
  with assms(4) have "update_db_merge sv clean later (w1, cache1, dirty1) = (w', cache', dirty')"
    by simp
  from update_db_merge_other[OF assms(3) this]
  have keep: "alpm_pkghash_find cache' (name c) = alpm_pkghash_find cache1 (name c)"
    and dirty: "dirty1 \<longrightarrow> dirty'"
    by simp_all
  show ?thesis
  proof (cases "?v = 1")
    case True
    with assms(1,2) step update_db_candidate_newer[of cache sv path old clean w dirty]
    have "cache1 = alpm_pkghash_add (alpm_pkghash_remove cache c) c" "dirty1"
      by (simp_all add: Let_def del: format.simps)
    with True keep dirty show ?thesis
      by (simp add: pkghash_find_add)
  next
    case False
    with assms(1,2) step update_db_candidate_older[of cache sv path old clean w dirty]
    have "cache1 = cache" "dirty1 = dirty" "?v = 0 \<longrightarrow> w1 = w"
      by auto
    with False keep assms(2) step show ?thesis
      by auto
  qed
qed

theorem candidate_version_precedence_witness:
  "alpm_pkg_load_metadata (ex_services None []) ''pkgs/foo-1.1-1-any.pkg.tar.xz'' = ex_foo_1_1
   \<and> alpm_pkghash_find [ex_foo_1_0] (name ex_foo_1_1) = Some ex_foo_1_0
   \<and> name (alpm_pkg_load_metadata (ex_services None []) ''pkgs/bar-1.0-1-any.pkg.tar.xz'') = ''bar''
   \<and> alpm_pkg_vercmp (ex_services None []) (version ex_foo_1_1) (version ex_foo_1_0) = 1
   \<and> ex_foo_1_1 \<noteq> ex_foo_1_0
   \<and> alpm_pkghash_find
        (fst (snd (update_db_merge (ex_services None []) 1
           [''pkgs/foo-1.1-1-any.pkg.tar.xz'', ''pkgs/bar-1.0-1-any.pkg.tar.xz'']
           (ex_world, [ex_foo_1_0], False)))) (name ex_foo_1_1) = Some ex_foo_1_1"
proof -
  let ?sv = "ex_services None []"
  let ?p = "''pkgs/foo-1.1-1-any.pkg.tar.xz''"
  let ?later = "[''pkgs/bar-1.0-1-any.pkg.tar.xz'']"
  let ?X = "update_db_merge ?sv 1 (?p # ?later) (ex_world, [ex_foo_1_0], False)"
  have a: "alpm_pkg_load_metadata ?sv ?p = ex_foo_1_1"
    by (simp add: ex_services_def ex_load_metadata_def)
  have b: "alpm_pkghash_find [ex_foo_1_0] (name ex_foo_1_1) = Some ex_foo_1_0"
    by (simp add: ex_foo_1_0_def ex_foo_1_1_def ex_pkg_def)
  have l: "name (alpm_pkg_load_metadata ?sv ''pkgs/bar-1.0-1-any.pkg.tar.xz'') = ''bar''"
    by (simp add: ex_services_def ex_load_metadata_def ex_bar_1_0_def ex_pkg_def)
  then have c: "\<forall>p \<in> set ?later. name (alpm_pkg_load_metadata ?sv p) \<noteq> name ex_foo_1_1"
    by (simp add: ex_foo_1_1_def ex_pkg_def)
  have v: "alpm_pkg_vercmp ?sv (version ex_foo_1_1) (version ex_foo_1_0) = 1"
    by (simp add: ex_defs)
  have d: "?X = (fst ?X, fst (snd ?X), snd (snd ?X))"
    by simp
  have e: "ex_foo_1_1 \<noteq> ex_foo_1_0"
    by (simp add: ex_foo_1_0_def ex_foo_1_1_def ex_pkg_def)
  from candidate_version_precedence[OF a b c d] v
  have "alpm_pkghash_find (fst (snd ?X)) (name ex_foo_1_1) = Some ex_foo_1_1"
    by blast
  with a b l v e show ?thesis
    by (simp only: simp_thms)
qed

text \<open>
  C2 as stated fails for a whole run. The archive holds \<open>foo\<close> 1.0, the scan finds the
  builds 1.1 and then 1.2: the comparator reports 1.1 newer than 1.0, and the index after
  UPDATE holds 1.2 and not the candidate 1.1.
\<close>

theorem version_precedence_counterexample:
  "alpm_pkghash_find (alpm_db_populate (ex_services None [ex_foo_1_0])
       (files ex_world ''repo.db.tar.gz'')) (name ex_foo_1_1) = Some ex_foo_1_0
   \<and> alpm_pkg_vercmp (ex_services None [ex_foo_1_0]) (version ex_foo_1_1) (version ex_foo_1_0) = 1
   \<and> update_db_index
        (ex_services (Some (ex_scan [''pkgs/foo-1.1-1-any.pkg.tar.xz'',
           ''pkgs/foo-1.2-1-any.pkg.tar.xz''])) [ex_foo_1_0])
        ex_world ''repo.db.tar.gz'' [''pkgs''] 0 = Some [ex_foo_1_2]
   \<and> ex_foo_1_1 \<notin> set [ex_foo_1_2]
   \<and> archive_view (outcome_world (update_db
        (ex_services (Some (ex_scan [''pkgs/foo-1.1-1-any.pkg.tar.xz'',
           ''pkgs/foo-1.2-1-any.pkg.tar.xz''])) [ex_foo_1_0])
        ex_world ''repo.db.tar.gz'' [''pkgs''] 0)) ''repo.db.tar.gz'' =
       Some ([''foo-1.2/desc'', ''foo-1.2/depends''], True)"
proof -
  let ?sv = "ex_services (Some (ex_scan [''pkgs/foo-1.1-1-any.pkg.tar.xz'',
           ''pkgs/foo-1.2-1-any.pkg.tar.xz''])) [ex_foo_1_0]"
  have scan: "update_db_scan ?sv 0 [''pkgs''] (update_db_load ?sv ex_world ''repo.db.tar.gz'') =
      Inr (ex_world\<lparr>stdio := [Printf '':: Reading existing database...\<newline>'',
             Printf '':: Scanning for new packages...\<newline>'',
             Printf ''UPDATING: foo-1.1\<newline>'', Printf ''UPDATING: foo-1.2\<newline>'']\<rparr>,
           [ex_foo_1_2], True)"
    by (simp add: ex_defs update_db_scan_def update_db_load_def update_db_candidate_def
        find_packages_def fts_children_def stat_def verify_pkg_def printf_def Let_def unlink_def
        alpm_pkghash_remove_def alpm_pkghash_add_def alpm_list_add_def fnmatch_def filter_pkg_def
        tolower_def)
  have locked: "''repo.db.tar.gz'' \<notin> locked (ex_world\<lparr>stdio :=
            [Printf '':: Reading existing database...\<newline>'',
             Printf '':: Scanning for new packages...\<newline>'',
             Printf ''UPDATING: foo-1.1\<newline>'', Printf ''UPDATING: foo-1.2\<newline>'']\<rparr>)"
    by (simp add: ex_world_def)
  have idx: "update_db_index ?sv ex_world ''repo.db.tar.gz'' [''pkgs''] 0 = Some [ex_foo_1_2]"
    by (simp add: update_db_index_def scan)
  have view: "archive_view (outcome_world (update_db ?sv ex_world ''repo.db.tar.gz'' [''pkgs''] 0))
      ''repo.db.tar.gz'' = Some ([''foo-1.2/desc'', ''foo-1.2/depends''], True)"
    by (simp add: update_db_def scan archive_view_def update_db_write_files[OF locked]
        spec_entries_def PATH_MAX_def ex_foo_1_2_def ex_pkg_def)
  have "alpm_pkghash_find (alpm_db_populate (ex_services None [ex_foo_1_0])
       (files ex_world ''repo.db.tar.gz'')) (name ex_foo_1_1) = Some ex_foo_1_0"
    and "alpm_pkg_vercmp (ex_services None [ex_foo_1_0]) (version ex_foo_1_1) (version ex_foo_1_0) = 1"
    and "ex_foo_1_1 \<notin> set [ex_foo_1_2]"
    by (simp_all add: ex_defs)
  with idx view show ?thesis
    by (simp only: simp_thms)
qed

lemma find_packages_any_world:
  "find_packages sv w argv = Inr pkgs \<Longrightarrow> find_packages sv v argv = Inr pkgs"
  by (auto simp: find_packages_def split: option.splits if_splits)

text \<open>
  C9, as the code has it. Take a run of UPDATE in which the scan finds a candidate whose
  version compares older (\<open>- 1\<close>) than the version of the record \<open>old\<close> that is cached under
  its name when the candidate is processed, \<open>pre\<close> being the candidates before it and \<open>post\<close>
  those after it. Processing the candidate leaves the index and the dirty flag as they are
  and calls \<^verbatim>\<open>unlink\<close> on the candidate's file exactly when \<open>clean\<close> is set; when no later
  candidate has the same name, the index at the end of the scan still holds \<open>old\<close> under
  that name. UPDATE returns 0, and in the world it leaves the candidate's file is gone when
  \<open>clean\<close> is set and the file can be removed, and is as it was when \<open>clean\<close> is unset or
  the removal fails: the result of \<^verbatim>\<open>unlink\<close> is ignored.
\<close>

theorem older_candidate_clean:
  assumes "argv \<noteq> []"
    and "update_db_load sv w repopath = (w0, cache0, dirty0)"
    and "find_packages sv w argv = Inr (pre @ path # post)"
    and "update_db_merge sv clean pre
           (printf w0 '':: Scanning for new packages...\<newline>'' [], cache0, dirty0) =
         (w1, cache1, dirty1)"
    and "alpm_pkg_load_metadata sv path = c"
    and "alpm_pkghash_find cache1 (name c) = Some old"
    and "alpm_pkg_vercmp sv (version c) (version old) = - 1"
    and "filename c \<noteq> repopath"
  shows "update_db_candidate sv clean (w1, cache1, dirty1) path =
       (if clean \<noteq> 0 then snd (unlink w1 (filename c)) else w1, cache1, dirty1)
    \<and> ((\<forall>p \<in> set post. name (alpm_pkg_load_metadata sv p) \<noteq> name c) \<longrightarrow>
         (\<exists>cache'. update_db_index sv w repopath argv clean = Some cache'
            \<and> alpm_pkghash_find cache' (name c) = Some old))
    \<and> update_db sv w repopath argv clean =
         Returned 0 (outcome_world (update_db sv w repopath argv clean))
    \<and> files (outcome_world (update_db sv w repopath argv clean)) (filename c) =
         (if clean \<noteq> 0 \<and> filename c \<notin> locked w then None else files w (filename c))"
proof -
  let ?q = "filename c"
  let ?ws = "printf w0 '':: Scanning for new packages...\<newline>'' []"
  let ?w2 = "if clean \<noteq> 0 then snd (unlink w1 ?q) else w1"
  from assms(5,6,7) update_db_candidate_older[of cache1 sv path old clean w1 dirty1]
  have step: "update_db_candidate sv clean (w1, cache1, dirty1) path = (?w2, cache1, dirty1)"
    by simp
  obtain w3 cache3 dirty3
    where post: "update_db_merge sv clean post (?w2, cache1, dirty1) = (w3, cache3, dirty3)"
    by (cases "update_db_merge sv clean post (?w2, cache1, dirty1)") auto
  have merge: "update_db_merge sv clean (pre @ path # post) (?ws, cache0, dirty0) = (w3, cache3, dirty3)"
    by (simp only: update_db_merge_append assms(4) update_db_merge.simps step post)
  from find_packages_any_world[OF assms(3)]
  have "find_packages sv ?ws argv = Inr (pre @ path # post)" .
  with assms(1) merge
  have scan: "update_db_scan sv clean argv (w0, cache0, dirty0) = Inr (w3, cache3, dirty3)"
    by (simp add: update_db_scan_def Let_def del: format.simps)
  have run: "update_db sv w repopath argv clean =
      Returned 0 (update_db_write sv repopath (w3, cache3, dirty3))"
    by (simp add: update_db_def assms(2) scan)
  have idx: "update_db_index sv w repopath argv clean = Some cache3"
    by (simp add: update_db_index_def assms(2) scan)
  have kept: "alpm_pkghash_find cache3 (name c) = Some old"
    if "\<forall>p \<in> set post. name (alpm_pkg_load_metadata sv p) \<noteq> name c"
    using update_db_merge_other[OF that post] assms(6) by simp
  from update_db_load_frame[OF assms(2)]
  have f0: "files ?ws ?q = files w ?q" "locked ?ws = locked w"
    by (simp_all add: printf_frame del: format.simps)
  from update_db_merge_frame[OF assms(4), of ?q] f0
  have f1: "locked w1 = locked w"
    "files w1 ?q = files w ?q \<or> clean \<noteq> 0 \<and> ?q \<notin> locked w \<and> files w1 ?q = None"
    by simp_all
  have f2: "locked ?w2 = locked w"
    "files ?w2 ?q = (if clean \<noteq> 0 \<and> ?q \<notin> locked w then None else files w ?q)"
    using f1 unlink_frame[of w1 ?q ?q] unlink_done[of w1 ?q] by auto
  from update_db_merge_frame[OF post, of ?q] f2
  have f3: "files w3 ?q = (if clean \<noteq> 0 \<and> ?q \<notin> locked w then None else files w ?q)"
    by auto
  from update_db_write_frame[OF assms(8), of sv w3 cache3 dirty3] f3
  have f4: "files (update_db_write sv repopath (w3, cache3, dirty3)) ?q =
      (if clean \<noteq> 0 \<and> ?q \<notin> locked w then None else files w ?q)"
    by simp
  from step idx kept run f4 show ?thesis
    by simp
qed

theorem older_candidate_clean_witness:
  "files ex_world ''pkgs/foo-1.0-1-any.pkg.tar.xz'' = Some Regular
   \<and> ''pkgs/foo-1.0-1-any.pkg.tar.xz'' \<notin> locked ex_world
   \<and> find_packages (ex_services (Some (ex_scan [''pkgs/foo-1.0-1-any.pkg.tar.xz''])) [ex_foo_1_1])
         ex_world [''pkgs''] = Inr [''pkgs/foo-1.0-1-any.pkg.tar.xz'']
   \<and> alpm_pkghash_find [ex_foo_1_1] (name ex_foo_1_0) = Some ex_foo_1_1
   \<and> alpm_pkg_vercmp (ex_services (Some (ex_scan [''pkgs/foo-1.0-1-any.pkg.tar.xz''])) [ex_foo_1_1])
         (version ex_foo_1_0) (version ex_foo_1_1) = - 1
   \<and> files (outcome_world (update_db
         (ex_services (Some (ex_scan [''pkgs/foo-1.0-1-any.pkg.tar.xz''])) [ex_foo_1_1])
         ex_world ''repo.db.tar.gz'' [''pkgs''] 1)) ''pkgs/foo-1.0-1-any.pkg.tar.xz'' = None
   \<and> files (outcome_world (update_db
         (ex_services (Some (ex_scan [''pkgs/foo-1.0-1-any.pkg.tar.xz''])) [ex_foo_1_1])
         ex_world ''repo.db.tar.gz'' [''pkgs''] 0)) ''pkgs/foo-1.0-1-any.pkg.tar.xz'' = Some Regular
   \<and> alpm_pkghash_find (the (update_db_index
         (ex_services (Some (ex_scan [''pkgs/foo-1.0-1-any.pkg.tar.xz''])) [ex_foo_1_1])
         ex_world ''repo.db.tar.gz'' [''pkgs''] 1)) (name ex_foo_1_0) = Some ex_foo_1_1"
proof -
  let ?sv = "ex_services (Some (ex_scan [''pkgs/foo-1.0-1-any.pkg.tar.xz''])) [ex_foo_1_1]"
  let ?p = "''pkgs/foo-1.0-1-any.pkg.tar.xz''"
  let ?w0 = "ex_world\<lparr>stdio := [Printf '':: Reading existing database...\<newline>'']\<rparr>"
  let ?ws = "printf ?w0 '':: Scanning for new packages...\<newline>'' []"
  have a: "[''pkgs''] \<noteq> []"
    by simp
  have b: "update_db_load ?sv ex_world ''repo.db.tar.gz'' = (?w0, [ex_foo_1_1], False)"
    by (simp add: update_db_load_def stat_def verify_pkg_def printf_def Let_def ex_defs)
  have c: "find_packages ?sv ex_world [''pkgs''] = Inr ([] @ ?p # [])"
    by (simp add: find_packages_def fts_children_def fnmatch_def filter_pkg_def tolower_def
        alpm_list_add_def ex_services_def ex_scan_def ex_visit_def)
  have d: "update_db_merge ?sv clean [] (?ws, [ex_foo_1_1], False) = (?ws, [ex_foo_1_1], False)" for clean
    by simp
  have e: "alpm_pkg_load_metadata ?sv ?p = ex_foo_1_0"
    by (simp add: ex_services_def ex_load_metadata_def)
  have f: "alpm_pkghash_find [ex_foo_1_1] (name ex_foo_1_0) = Some ex_foo_1_1"
    by (simp add: ex_foo_1_0_def ex_foo_1_1_def ex_pkg_def)
  have g: "alpm_pkg_vercmp ?sv (version ex_foo_1_0) (version ex_foo_1_1) = - 1"
    by (simp add: ex_defs)
  have h: "filename ex_foo_1_0 \<noteq> ''repo.db.tar.gz''"
    by (simp add: ex_foo_1_0_def ex_pkg_def)
  have i: "files ex_world ?p = Some Regular" "?p \<notin> locked ex_world" "filename ex_foo_1_0 = ?p"
    by (simp_all add: ex_world_def ex_foo_1_0_def ex_pkg_def)
  have j: "\<forall>p \<in> set []. name (alpm_pkg_load_metadata ?sv p) \<noteq> name ex_foo_1_0"
    by simp
  from older_candidate_clean[OF a b c d[of 1] e f g h] i j
  have 1: "files (outcome_world (update_db ?sv ex_world ''repo.db.tar.gz'' [''pkgs''] 1)) ?p = None"
    and "\<exists>cache'. update_db_index ?sv ex_world ''repo.db.tar.gz'' [''pkgs''] 1 = Some cache'
            \<and> alpm_pkghash_find cache' (name ex_foo_1_0) = Some ex_foo_1_1"
    by simp_all
  then have 2: "alpm_pkghash_find (the (update_db_index ?sv ex_world ''repo.db.tar.gz'' [''pkgs''] 1))
      (name ex_foo_1_0) = Some ex_foo_1_1"
    by (elim exE conjE) simp
  from older_candidate_clean[OF a b c d[of 0] e f g h] i
  have 3: "files (outcome_world (update_db ?sv ex_world ''repo.db.tar.gz'' [''pkgs''] 0)) ?p = Some Regular"
    by simp
  from c have c': "find_packages ?sv ex_world [''pkgs''] = Inr [?p]"
    by simp
  from 1 2 3 c' f g i(1,2) show ?thesis
    by (simp only: simp_thms)
qed

text \<open>
  C9 as stated fails: with \<open>clean\<close> set and the older build of \<open>foo\<close> in a place where
  \<^verbatim>\<open>unlink\<close> fails, UPDATE returns 0 and the candidate's file is still there.
\<close>

theorem older_candidate_kept_counterexample:
  "files ex_world_kept ''pkgs/foo-1.0-1-any.pkg.tar.xz'' = Some Regular
   \<and> alpm_pkghash_find
        (alpm_db_populate (ex_services (Some (ex_scan [''pkgs/foo-1.0-1-any.pkg.tar.xz''])) [ex_foo_1_1])
           (files ex_world_kept ''repo.db.tar.gz'')) (name ex_foo_1_0) = Some ex_foo_1_1
   \<and> alpm_pkg_vercmp (ex_services (Some (ex_scan [''pkgs/foo-1.0-1-any.pkg.tar.xz''])) [ex_foo_1_1])
         (version ex_foo_1_0) (version ex_foo_1_1) = - 1
   \<and> update_db (ex_services (Some (ex_scan [''pkgs/foo-1.0-1-any.pkg.tar.xz''])) [ex_foo_1_1])
         ex_world_kept ''repo.db.tar.gz'' [''pkgs''] 1 =
       Returned 0 (ex_world_kept\<lparr>stdio :=
         [Printf '':: Reading existing database...\<newline>'',
          Printf '':: Scanning for new packages...\<newline>'',
          Printf ''repo repo.db.tar.gz does not need updating\<newline>'']\<rparr>)
   \<and> files (outcome_world (update_db
         (ex_services (Some (ex_scan [''pkgs/foo-1.0-1-any.pkg.tar.xz''])) [ex_foo_1_1])
         ex_world_kept ''repo.db.tar.gz'' [''pkgs''] 1)) ''pkgs/foo-1.0-1-any.pkg.tar.xz'' = Some Regular"
proof -
  let ?sv = "ex_services (Some (ex_scan [''pkgs/foo-1.0-1-any.pkg.tar.xz''])) [ex_foo_1_1]"
  have run: "update_db ?sv ex_world_kept ''repo.db.tar.gz'' [''pkgs''] 1 =
       Returned 0 (ex_world_kept\<lparr>stdio :=
         [Printf '':: Reading existing database...\<newline>'',
          Printf '':: Scanning for new packages...\<newline>'',
          Printf ''repo repo.db.tar.gz does not need updating\<newline>'']\<rparr>)"
    by (simp add: ex_defs ex_world_kept_def update_db_def update_db_scan_def update_db_load_def
        update_db_candidate_def find_packages_def fts_children_def stat_def verify_pkg_def
        printf_def Let_def unlink_def alpm_list_add_def fnmatch_def filter_pkg_def tolower_def
        update_db_write_def)
  have "files ex_world_kept ''pkgs/foo-1.0-1-any.pkg.tar.xz'' = Some Regular"
    and "alpm_pkghash_find (alpm_db_populate ?sv (files ex_world_kept ''repo.db.tar.gz''))
        (name ex_foo_1_0) = Some ex_foo_1_1"
    and "alpm_pkg_vercmp ?sv (version ex_foo_1_0) (version ex_foo_1_1) = - 1"
    by (simp_all add: ex_defs ex_world_kept_def)
  with run show ?thesis
    by (simp add: ex_world_kept_def)
qed

section \<open>UPDATE: the result\<close>

text \<open>
  C10. An UPDATE that runs to completion, that is \<open>update_db\<close> returns (the process has not
  ended inside the scanner), returns 0, in every world and for all services: with records
  pruned, with \<^verbatim>\<open>unlink\<close> failing and with the archive not writable. \<open>main\<close> then exits
  with status 0.
\<close>

theorem update_db_returns_0:
  "(update_db sv w repopath argv clean = Returned rc w' \<longrightarrow> rc = 0)
   \<and> (update_db sv w (snprintf PATH_MAX ''%s.db.tar.gz'' [S reponame]) argv clean = Returned rc w' \<longrightarrow>
        fst (repoman_main sv w ACTION_UPDATE reponame argv clean) = 0)"
  by (auto simp: repoman_main_def Let_def update_db_def simp del: format.simps split: sum.splits)

theorem update_db_returns_0_witness:
  "''repo.db.tar.gz'' \<in> locked ex_world_locked
   \<and> files ex_world_locked (filename ex_bar_1_0) = None
   \<and> (\<exists>w'. update_db (ex_services (Some (ex_scan [''pkgs/foo-1.0-1-any.pkg.tar.xz'']))
                 [ex_foo_1_1, ex_bar_1_0])
              ex_world_locked ''repo.db.tar.gz'' [''pkgs''] 1 = Returned 0 w')
   \<and> fst (repoman_main (ex_services (Some (ex_scan [''pkgs/foo-1.0-1-any.pkg.tar.xz'']))
                 [ex_foo_1_1, ex_bar_1_0])
              ex_world_locked ACTION_UPDATE ''repo'' [''pkgs''] 1) = 0"
proof -
  let ?sv = "ex_services (Some (ex_scan [''pkgs/foo-1.0-1-any.pkg.tar.xz''])) [ex_foo_1_1, ex_bar_1_0]"
  have "\<exists>rc w'. update_db ?sv ex_world_locked ''repo.db.tar.gz'' [''pkgs''] 1 = Returned rc w'"
    by (simp add: update_db_def update_db_scan_def find_packages_def ex_services_def
        split: prod.splits)
  then obtain rc w'
    where r: "update_db ?sv ex_world_locked ''repo.db.tar.gz'' [''pkgs''] 1 = Returned rc w'"
    by blast
  have p: "snprintf PATH_MAX ''%s.db.tar.gz'' [S ''repo''] = ''repo.db.tar.gz''"
    by (simp add: snprintf_def PATH_MAX_def)
  from update_db_returns_0[of ?sv ex_world_locked "''repo.db.tar.gz''" "[''pkgs'']" 1 rc w' "''repo''"] r p
  have "rc = 0"
    and "fst (repoman_main ?sv ex_world_locked ACTION_UPDATE ''repo'' [''pkgs''] 1) = 0"
    by simp_all
  with r show ?thesis
    by (simp add: ex_defs)
qed

section \<open>VERIFY\<close>

lemma verify_pkg_deep:
  "verify_pkg sv w pkg True =
     (if spec_record_ok sv (files w) pkg then 0 else 1,
      w\<lparr>stdio := stdio w @ spec_verify_report sv (files w) pkg\<rparr>)"
  by (simp add: verify_pkg_def stat_def spec_record_ok_def spec_verify_report_def warn_def warnx_def)

lemma verify_db_loop_eq:
  "rc = 0 \<or> rc = 1 \<Longrightarrow>
   verify_db_loop sv pkgs (rc, w) =
     (if rc = 0 \<and> list_all (spec_record_ok sv (files w)) pkgs then 0 else 1,
      w\<lparr>stdio := stdio w @ concat (map (spec_verify_report sv (files w)) pkgs)\<rparr>)"
proof (induction pkgs arbitrary: rc w)
  case Nil
  then show ?case by auto
next
  case (Cons p pkgs)
  show ?case
  proof (cases "spec_record_ok sv (files w) p")
    case True
    with Cons.prems Cons.IH[of rc "w\<lparr>stdio := stdio w @ spec_verify_report sv (files w) p\<rparr>"]
    show ?thesis by (simp add: verify_pkg_deep)
  next
    case False
    from Cons.prems have "rc OR 1 = 1" by auto
    with False Cons.IH[of 1 "w\<lparr>stdio := stdio w @ spec_verify_report sv (files w) p\<rparr>"]
    show ?thesis by (simp add: verify_pkg_deep)
  qed
qed

text \<open>
  C6, as the code has it. VERIFY checks every record of the index, whatever the earlier
  records gave. For a record whose file exists the MD5 sum is recomputed and compared; the
  SHA-256 sum is recomputed and compared only when the MD5 sum agrees, so a record gives at
  most one report, the one of its first failing check. The result is 0 exactly when every
  record has its file and both sums agree, and 1 otherwise; the confirmation is printed
  exactly when the result is 0. No file is changed.
\<close>

theorem verify_db_reports:
  assumes "verify_db sv w repopath = (rc, w')"
  shows "(rc = 0 \<longleftrightarrow> (\<forall>pkg \<in> set (alpm_db_populate sv (files w repopath)). spec_record_ok sv (files w) pkg))
    \<and> (rc = 0 \<or> rc = 1)
    \<and> stdio w' = stdio w
        @ concat (map (spec_verify_report sv (files w)) (alpm_db_populate sv (files w repopath)))
        @ (if rc = 0 then [Printf ''repo okay!\<newline>''] else [])
    \<and> files w' = files w"
  using assms
  by (auto simp: verify_db_def Let_def verify_db_loop_eq printf_def list_all_iff split: if_splits)

theorem verify_db_reports_witness:
  "fst (verify_db (ex_services None [ex_foo_1_0, ex_bar_1_0, ex_foo_corrupt]) ex_world ''repo.db.tar.gz'') = 1
   \<and> stdio (snd (verify_db (ex_services None [ex_foo_1_0, ex_bar_1_0, ex_foo_corrupt]) ex_world
        ''repo.db.tar.gz'')) =
       [Warn ''couldn't find pkg pkgs/bar-1.0-1-any.pkg.tar.xz'',
        Warnx ''md5 sum for pkg pkgs/foo-1.0-1-any.pkg.tar.xz is different'']
   \<and> \<not> spec_record_ok (ex_services None [ex_foo_1_0, ex_bar_1_0, ex_foo_corrupt]) (files ex_world)
         ex_bar_1_0"
proof -
  let ?db = "[ex_foo_1_0, ex_bar_1_0, ex_foo_corrupt]"
  let ?sv = "ex_services None ?db"
  let ?X = "verify_db ?sv ex_world ''repo.db.tar.gz''"
  have d: "?X = (fst ?X, snd ?X)"
    by simp
  have pop: "alpm_db_populate ?sv (files ex_world ''repo.db.tar.gz'') = ?db"
    by (simp add: ex_services_def ex_world_def)
  have nok: "\<not> spec_record_ok ?sv (files ex_world) ex_bar_1_0"
    by (simp add: spec_record_ok_def ex_world_def ex_bar_1_0_def ex_pkg_def)
  from verify_db_reports[OF d]
  have 1: "(fst ?X = 0) = (\<forall>pkg \<in> set ?db. spec_record_ok ?sv (files ex_world) pkg)"
    and 2: "fst ?X = 0 \<or> fst ?X = 1"
    and 3: "stdio (snd ?X) = stdio ex_world @ concat (map (spec_verify_report ?sv (files ex_world)) ?db)
          @ (if fst ?X = 0 then [Printf ''repo okay!\<newline>''] else [])"
    unfolding pop by blast+
  from 1 nok have "fst ?X \<noteq> 0"
    by simp
  with 2 have rc: "fst ?X = 1"
    by simp
  have "stdio (snd ?X) = [Warn ''couldn't find pkg pkgs/bar-1.0-1-any.pkg.tar.xz'',
        Warnx ''md5 sum for pkg pkgs/foo-1.0-1-any.pkg.tar.xz is different'']"
    unfolding 3 rc by (simp add: spec_verify_report_def ex_defs')
  with rc nok show ?thesis
    by blast
qed

text \<open>
  C6 as stated fails: a record whose two checksums are both wrong gets the report of the
  MD5 sum only; its SHA-256 sum is not compared.
\<close>

theorem verify_db_counterexample:
  "files ex_world (filename ex_foo_corrupt) = Some Regular
   \<and> md5sum ex_foo_corrupt \<noteq> alpm_compute_md5sum (ex_services None [ex_foo_corrupt]) (filename ex_foo_corrupt)
   \<and> sha256sum ex_foo_corrupt \<noteq> alpm_compute_sha256sum (ex_services None [ex_foo_corrupt]) (filename ex_foo_corrupt)
   \<and> verify_db (ex_services None [ex_foo_corrupt]) ex_world ''repo.db.tar.gz'' =
       (1, ex_world\<lparr>stdio := [Warnx ''md5 sum for pkg pkgs/foo-1.0-1-any.pkg.tar.xz is different'']\<rparr>)"
  by (simp add: ex_defs' verify_db_def verify_pkg_def stat_def warnx_def)

text \<open>
  C5 is not what the code does: \<open>verify_db\<close> has no check that the archive exists (the
  \<^verbatim>\<open>stat\<close> call of \<open>query_db\<close> and \<open>update_db\<close> is missing). It hands the path to the reader
  and walks the records it gets; with a reader that yields no record for a missing archive,
  VERIFY prints the confirmation and returns 0, where QUERY fails.
\<close>

theorem verify_db_no_archive:
  assumes "files w repopath = None" and "alpm_db_populate sv None = []"
  shows "verify_db sv w repopath = (0, printf w ''repo okay!\<newline>'' [])"
  using assms by (simp add: verify_db_def del: format.simps)

theorem verify_db_no_archive_witness:
  "files ex_world_fresh ''repo.db.tar.gz'' = None
   \<and> alpm_db_populate (ex_services None [ex_foo_1_0]) None = []
   \<and> verify_db (ex_services None [ex_foo_1_0]) ex_world_fresh ''repo.db.tar.gz'' =
       (0, ex_world_fresh\<lparr>stdio := [Printf ''repo okay!\<newline>'']\<rparr>)
   \<and> query_db (ex_services None [ex_foo_1_0]) ex_world_fresh ''repo.db.tar.gz'' [] =
       (1, ex_world_fresh\<lparr>stdio := [Warnx ''repo doesn't exist'']\<rparr>)"
proof -
  have a: "files ex_world_fresh ''repo.db.tar.gz'' = None"
    by (simp add: ex_world_fresh_def)
  have b: "alpm_db_populate (ex_services None [ex_foo_1_0]) None = []"
    by (simp add: ex_services_def)
  from verify_db_no_archive[OF a b] a b show ?thesis
    by (simp add: printf_def query_db_def stat_def warnx_def ex_world_fresh_def)
qed

section \<open>QUERY\<close>

lemma query_db_names_found:
  assumes "\<forall>n \<in> set found. alpm_pkghash_find db n \<noteq> None"
  shows "query_db_names db (found @ rest) w =
     query_db_names db rest (query_db_all (map (\<lambda>n. the (alpm_pkghash_find db n)) found) w)"
  using assms by (induction found arbitrary: w) auto

text \<open>
  C4, as the code has it. When the archive exists and the requested names are \<open>found\<close>, all
  in the index, then \<open>missing\<close>, not in the index, then \<open>rest\<close>: QUERY returns 1, it has
  printed the metadata of the records of \<open>found\<close>, in order, before it reports the fixed
  message \<open>pkg not found\<close>, and nothing of \<open>rest\<close> is looked up. Neither the result nor the
  output depends on the name \<open>missing\<close>.
\<close>

theorem query_db_first_missing:
  assumes "files w repopath \<noteq> None"
    and "alpm_db_populate sv (files w repopath) = db"
    and "\<forall>n \<in> set found. alpm_pkghash_find db n \<noteq> None"
    and "alpm_pkghash_find db missing = None"
  shows "query_db sv w repopath (found @ missing # rest) =
     (1, warnx (query_db_all (map (\<lambda>n. the (alpm_pkghash_find db n)) found) w) ''pkg not found'' [])
   \<and> stdio (snd (query_db sv w repopath (found @ missing # rest))) =
       stdio (query_db_all (map (\<lambda>n. the (alpm_pkghash_find db n)) found) w) @ [Warnx ''pkg not found'']"
  using assms
  by (simp add: query_db_def stat_def query_db_names_found warnx_def del: format.simps) simp

theorem query_db_first_missing_witness:
  "files ex_world ''repo.db.tar.gz'' \<noteq> None
   \<and> alpm_db_populate (ex_services None [ex_foo_1_0, ex_bar_1_0]) (files ex_world ''repo.db.tar.gz'') =
       [ex_foo_1_0, ex_bar_1_0]
   \<and> alpm_pkghash_find [ex_foo_1_0, ex_bar_1_0] ''foo'' = Some ex_foo_1_0
   \<and> alpm_pkghash_find [ex_foo_1_0, ex_bar_1_0] ''baz'' = None
   \<and> query_db (ex_services None [ex_foo_1_0, ex_bar_1_0]) ex_world ''repo.db.tar.gz'' [''foo'', ''baz'', ''bar''] =
       (1, warnx (print_pkg_metadata ex_world ex_foo_1_0) ''pkg not found'' [])"
proof -
  let ?db = "[ex_foo_1_0, ex_bar_1_0]"
  let ?sv = "ex_services None ?db"
  have a: "files ex_world ''repo.db.tar.gz'' \<noteq> None"
    by (simp add: ex_world_def)
  have b: "alpm_db_populate ?sv (files ex_world ''repo.db.tar.gz'') = ?db"
    by (simp add: ex_services_def ex_world_def)
  have f: "alpm_pkghash_find ?db ''foo'' = Some ex_foo_1_0"
    by (simp add: ex_foo_1_0_def ex_pkg_def)
  then have c: "\<forall>n \<in> set [''foo'']. alpm_pkghash_find ?db n \<noteq> None"
    by simp
  have d: "alpm_pkghash_find ?db ''baz'' = None"
    by (simp add: ex_foo_1_0_def ex_bar_1_0_def ex_pkg_def)
  from query_db_first_missing[OF a b c d, of "[''bar'']"] a b f d
  show ?thesis by simp
qed

text \<open>
  C4 as stated fails: asked for \<open>foo\<close>, which is in the index, and then \<open>baz\<close>, which is
  not, QUERY has printed the metadata of \<open>foo\<close> when it fails, and its report does not name
  \<open>baz\<close>.
\<close>

theorem query_db_counterexample:
  "query_db (ex_services None [ex_foo_1_0]) ex_world ''repo.db.tar.gz'' [''foo'', ''baz''] =
     (1, ex_world\<lparr>stdio :=
        [Printf ''Filename     : pkgs/foo-1.0-1-any.pkg.tar.xz\<newline>'',
         Printf ''Name         : foo\<newline>'',
         Printf ''Version      : 1.0\<newline>'',
         Printf ''Description  : a package\<newline>'',
         Printf ''Architecture : any\<newline>'',
         Printf ''URL          : http://example.org\<newline>'',
         Printf ''Packager     : nobody\<newline>\<newline>'',
         Warnx ''pkg not found'']\<rparr>)"
  by (simp add: ex_defs query_db_def stat_def print_pkg_metadata_def printf_def warnx_def Let_def)

section \<open>File scanner\<close>

lemma fnmatch_star_all: "fnmatch_casefold ''*'' s"
  by (induction s) auto

lemma fnmatch_star:
  "fnmatch_casefold (CHR ''*'' # ps) s \<longleftrightarrow> (\<exists>a b. s = a @ b \<and> fnmatch_casefold ps b)"
proof (induction s)
  case Nil
  then show ?case by (cases ps) auto
next
  case (Cons c cs)
  show ?case
  proof
    assume "fnmatch_casefold (CHR ''*'' # ps) (c # cs)"
    then consider "fnmatch_casefold ps (c # cs)" | "fnmatch_casefold (CHR ''*'' # ps) cs"
      by auto
    then show "\<exists>a b. c # cs = a @ b \<and> fnmatch_casefold ps b"
    proof cases
      case 1
      then show ?thesis by (intro exI[of _ "[]"] exI[of _ "c # cs"]) simp
    next
      case 2
      with Cons.IH obtain a b where "cs = a @ b" "fnmatch_casefold ps b" by auto
      then show ?thesis by (intro exI[of _ "c # a"] exI[of _ b]) simp
    qed
  next
    assume "\<exists>a b. c # cs = a @ b \<and> fnmatch_casefold ps b"
    then obtain a b where ab: "c # cs = a @ b" "fnmatch_casefold ps b" by auto
    show "fnmatch_casefold (CHR ''*'' # ps) (c # cs)"
    proof (cases a)
      case Nil
      with ab have "fnmatch_casefold ps (c # cs)" by simp
      then show ?thesis by simp
    next
      case (Cons x xs)
      with ab have "cs = xs @ b" by simp
      with ab Cons.IH have "fnmatch_casefold (CHR ''*'' # ps) cs" by auto
      then show ?thesis by simp
    qed
  qed
qed

lemma fnmatch_literal:
  "p \<noteq> CHR ''*'' \<Longrightarrow>
   fnmatch_casefold (p # ps) s \<longleftrightarrow> (\<exists>c cs. s = c # cs \<and> tolower p = tolower c \<and> fnmatch_casefold ps cs)"
  by (cases s) auto

lemma fnmatch_literals:
  "CHR ''*'' \<notin> set lit \<Longrightarrow>
   fnmatch_casefold (lit @ rest) s \<longleftrightarrow>
     (\<exists>a b. s = a @ b \<and> map tolower a = map tolower lit \<and> fnmatch_casefold rest b)"
proof (induction lit arbitrary: s)
  case Nil
  then show ?case by simp
next
  case (Cons p lit)
  then have p: "p \<noteq> CHR ''*''" and l: "CHR ''*'' \<notin> set lit"
    by auto
  show ?case
  proof
    assume "fnmatch_casefold ((p # lit) @ rest) s"
    with p obtain c cs where s: "s = c # cs" "tolower p = tolower c" "fnmatch_casefold (lit @ rest) cs"
      by (auto simp: fnmatch_literal)
    with Cons.IH[OF l, of cs] obtain a b
      where "cs = a @ b" "map tolower a = map tolower lit" "fnmatch_casefold rest b"
      by auto
    with s show "\<exists>a b. s = a @ b \<and> map tolower a = map tolower (p # lit) \<and> fnmatch_casefold rest b"
      by (intro exI[of _ "c # a"] exI[of _ b]) simp
  next
    assume "\<exists>a b. s = a @ b \<and> map tolower a = map tolower (p # lit) \<and> fnmatch_casefold rest b"
    then obtain a b where ab: "s = a @ b" "map tolower a = map tolower (p # lit)" "fnmatch_casefold rest b"
      by blast
    then obtain c a' where a: "a = c # a'" "tolower c = tolower p" "map tolower a' = map tolower lit"
      by (cases a) auto
    with ab Cons.IH[OF l, of "a' @ b"] have "fnmatch_casefold (lit @ rest) (a' @ b)"
      by auto
    with a ab p show "fnmatch_casefold ((p # lit) @ rest) s"
      by simp
  qed
qed

lemma fnmatch_filter_pkg:
  "fnmatch_casefold filter_pkg s \<longleftrightarrow> spec_matches_pkg_tar s"
proof -
  have low: "map tolower ''.pkg.tar'' = ''.pkg.tar''"
    by (simp add: tolower_def)
  have "fnmatch_casefold (''.pkg.tar'' @ ''*'') b \<longleftrightarrow>
      (\<exists>c d. b = c @ d \<and> map tolower c = map tolower ''.pkg.tar'' \<and> fnmatch_casefold ''*'' d)" for b
    by (rule fnmatch_literals) simp
  then have "fnmatch_casefold (''.pkg.tar'' @ ''*'') b \<longleftrightarrow> (\<exists>c d. b = c @ d \<and> map tolower c = ''.pkg.tar'')" for b
    by (simp only: low fnmatch_star_all simp_thms)
  then have lit: "fnmatch_casefold ''.pkg.tar*'' b \<longleftrightarrow> (\<exists>c d. b = c @ d \<and> map tolower c = ''.pkg.tar'')" for b
    by simp
  have star: "fnmatch_casefold filter_pkg s \<longleftrightarrow> (\<exists>a b. s = a @ b \<and> fnmatch_casefold ''.pkg.tar*'' b)"
    unfolding filter_pkg_def by (rule fnmatch_star)
  show ?thesis
    unfolding spec_matches_pkg_tar_def
  proof
    assume "fnmatch_casefold filter_pkg s"
    with star have "\<exists>a b. s = a @ b \<and> fnmatch_casefold ''.pkg.tar*'' b"
      by (rule iffD1)
    then obtain a b where ab: "s = a @ b" "fnmatch_casefold ''.pkg.tar*'' b"
      by (elim exE conjE)
    from lit[THEN iffD1, OF ab(2)] obtain c d where cd: "b = c @ d" "map tolower c = ''.pkg.tar''"
      by (elim exE conjE)
    have "map tolower s = map tolower a @ map tolower c @ map tolower d"
      unfolding ab(1) cd(1) by (simp only: map_append)
    then have "map tolower s = map tolower a @ ''.pkg.tar'' @ map tolower d"
      by (simp only: cd(2))
    then show "\<exists>u v. map tolower s = u @ ''.pkg.tar'' @ v"
      by (intro exI)
  next
    assume "\<exists>u v. map tolower s = u @ ''.pkg.tar'' @ v"
    then obtain u v where uv: "map tolower s = u @ (''.pkg.tar'' @ v)"
      by (elim exE)
    from map_eq_append_conv[THEN iffD1, OF uv] obtain a b
      where ab: "s = a @ b" "''.pkg.tar'' @ v = map tolower b"
      by (elim exE conjE)
    from map_eq_append_conv[THEN iffD1, OF ab(2)[symmetric]] obtain c d
      where cd: "b = c @ d" "''.pkg.tar'' = map tolower c"
      by (elim exE conjE)
    have "\<exists>c' d'. b = c' @ d' \<and> map tolower c' = ''.pkg.tar''"
      using cd(1) cd(2)[symmetric] by (intro exI conjI)
    then have "fnmatch_casefold ''.pkg.tar*'' b"
      by (rule lit[THEN iffD2])
    with ab(1) have "\<exists>a b. s = a @ b \<and> fnmatch_casefold ''.pkg.tar*'' b"
      by (intro exI conjI)
    then show "fnmatch_casefold filter_pkg s"
      by (rule star[THEN iffD2])
  qed
qed

lemma find_packages_loop_eq:
  "find_packages_loop ftsp pkgs =
     pkgs @ map fts_path (filter (\<lambda>p. fts_info p = FTS_F \<and> spec_matches_pkg_tar (fts_path p)) ftsp)"
  by (induction ftsp arbitrary: pkgs)
    (auto simp: fnmatch_def fnmatch_filter_pkg alpm_list_add_def split: fts_info.splits)

text \<open>
  C7, as the code has it. The scanner returns, in the order of the traversal, the paths of
  exactly those visits that are regular files and whose whole path, as the traversal
  reports it (root argument, directories and file name), contains \<open>.pkg.tar\<close> in either
  case: the pattern is matched against \<^verbatim>\<open>fts_path\<close>, and \<^verbatim>\<open>*\<close> matches slashes too.
  Directories and special files are never returned.
\<close>

theorem find_packages_whole_path:
  assumes "fts_open sv paths = Some ftsp" and "fts_children ftsp \<noteq> []"
  shows "find_packages sv w paths =
     Inr (map fts_path (filter (\<lambda>p. fts_info p = FTS_F \<and> spec_matches_pkg_tar (fts_path p)) ftsp))"
  using assms by (simp add: find_packages_def find_packages_loop_eq)

theorem find_packages_whole_path_witness:
  "fts_open (ex_services (fts_open_tree ex_tree [''repo'']) []) [''repo''] =
     fts_open_tree ex_tree [''repo'']
   \<and> fts_children (the (fts_open_tree ex_tree [''repo''])) =
       [\<lparr>fts_info = FTS_D, fts_path = ''repo'', fts_level = 0\<rparr>,
        \<lparr>fts_info = FTS_DP, fts_path = ''repo'', fts_level = 0\<rparr>]
   \<and> find_packages (ex_services (fts_open_tree ex_tree [''repo'']) []) ex_world [''repo''] =
       Inr [''repo/old.pkg.tar.d/README'', ''repo/foo-1.0-1-any.PKG.TAR.xz'']"
proof -
  let ?sv = "ex_services (fts_open_tree ex_tree [''repo'']) []"
  let ?ftsp = "the (fts_open_tree ex_tree [''repo''])"
  have a: "fts_open ?sv [''repo''] = Some ?ftsp"
    by (simp add: ex_services_def fts_open_tree_def)
  have b: "fts_children ?ftsp =
       [\<lparr>fts_info = FTS_D, fts_path = ''repo'', fts_level = 0\<rparr>,
        \<lparr>fts_info = FTS_DP, fts_path = ''repo'', fts_level = 0\<rparr>]"
    by (simp add: fts_open_tree_def ex_tree_def fts_children_def)
  then have c: "fts_children ?ftsp \<noteq> []"
    by simp
  have "find_packages ?sv ex_world [''repo''] =
      Inr [''repo/old.pkg.tar.d/README'', ''repo/foo-1.0-1-any.PKG.TAR.xz'']"
    unfolding find_packages_whole_path[OF a c]
    by (simp add: fts_open_tree_def ex_tree_def fnmatch_filter_pkg[symmetric] filter_pkg_def
        tolower_def char_of_eq_iff char_eq_char_of)
  with a b show ?thesis
    by (simp add: ex_services_def)
qed

text \<open>
  C7 as stated fails: the regular file \<open>README\<close> inside the directory \<open>old.pkg.tar.d\<close> is
  returned, although its final path segment does not match the pattern.
\<close>

theorem find_packages_counterexample:
  "find_packages (ex_services (fts_open_tree ex_tree [''repo'']) []) ex_world [''repo''] =
     Inr [''repo/old.pkg.tar.d/README'', ''repo/foo-1.0-1-any.PKG.TAR.xz'']
   \<and> spec_base_name ''repo/old.pkg.tar.d/README'' = ''README''
   \<and> fnmatch filter_pkg ''README'' = 1"
  by (simp add: ex_services_def ex_tree_def fts_open_tree_def find_packages_def fts_children_def
      fnmatch_def filter_pkg_def tolower_def alpm_list_add_def spec_base_name_def
      char_of_eq_iff char_eq_char_of)

section \<open>Writing an index and reading it back\<close>

lemma lt10_cases: "d < 10 \<Longrightarrow> d = 0 \<or> d = 1 \<or> d = 2 \<or> d = 3 \<or> d = 4 \<or> d = 5 \<or> d = 6 \<or> d = 7 \<or> d = 8 \<or> d = (9::nat)"
  by arith

lemma digit_val_digit_char: "d < 10 \<Longrightarrow> digit_val (digit_char d) = Some d"
  by (drule lt10_cases) (auto simp: digit_val_def digit_char_def)

lemma digit_char_in: "d < 10 \<Longrightarrow> digit_char d \<in> set ''0123456789''"
  by (drule lt10_cases) (auto simp: digit_char_def)

lemma parse_digits_snoc:
  "parse_digits acc (xs @ [c]) =
     (case parse_digits acc xs of
        None \<Rightarrow> None
      | Some a \<Rightarrow> (case digit_val c of None \<Rightarrow> None | Some d \<Rightarrow> Some (10 * a + d)))"
  by (induction xs arbitrary: acc) (auto split: option.splits)

lemma parse_digits_dec_digits: "parse_digits 0 (dec_digits n) = Some n"
proof (induction n rule: dec_digits.induct)
  case (1 n)
  show ?case
  proof (cases "n < 10")
    case True
    then show ?thesis
      by (subst dec_digits.simps) (simp add: digit_val_digit_char)
  next
    case False
    with 1 have "parse_digits 0 (dec_digits (n div 10)) = Some (n div 10)"
      by simp
    moreover have "digit_val (digit_char (n mod 10)) = Some (n mod 10)"
      by (simp add: digit_val_digit_char)
    ultimately show ?thesis
      using False by (subst dec_digits.simps) (simp add: parse_digits_snoc)
  qed
qed

lemma dec_digits_set: "set (dec_digits n) \<subseteq> set ''0123456789''"
proof (induction n rule: dec_digits.induct)
  case (1 n)
  show ?case
  proof (cases "n < 10")
    case True
    then show ?thesis
      using digit_char_in[of n] by (subst dec_digits.simps) simp
  next
    case False
    with 1 have "set (dec_digits (n div 10)) \<subseteq> set ''0123456789''"
      by simp
    moreover have "digit_char (n mod 10) \<in> set ''0123456789''"
      by (rule digit_char_in) simp
    ultimately show ?thesis
      using False by (subst dec_digits.simps) simp
  qed
qed

lemma dec_digits_nonempty: "dec_digits n \<noteq> []"
  by (subst dec_digits.simps) simp

lemma word_of_nat_sint:
  "0 \<le> sint (v :: 64 word) \<Longrightarrow> of_nat (nat (sint v)) = v"
  "sint (v :: 64 word) < 0 \<Longrightarrow> - of_nat (nat (- sint v)) = v"
proof -
  have v: "(of_int (sint v) :: 64 word) = v"
    by simp
  show "of_nat (nat (sint v)) = v" if "0 \<le> sint v"
  proof -
    from that have "(of_nat (nat (sint v)) :: 64 word) = of_int (sint v)"
      by (rule of_nat_nat)
    with v show ?thesis by (simp only:)
  qed
  show "- of_nat (nat (- sint v)) = v" if "sint v < 0"
  proof -
    from that have "0 \<le> - sint v"
      by simp
    then have "(of_nat (nat (- sint v)) :: 64 word) = of_int (- sint v)"
      by (rule of_nat_nat)
    then have "- (of_nat (nat (- sint v)) :: 64 word) = of_int (sint v)"
      by (simp only: of_int_minus minus_minus)
    with v show ?thesis by (simp only:)
  qed
qed

lemma parse_ld_printf_ld: "parse_ld (printf_ld v) = Some v"
proof (cases "sint v < 0")
  case True
  have "parse_ld (CHR ''-'' # dec_digits (nat (- sint v))) = Some (- of_nat (nat (- sint v)))"
    by (simp add: parse_ld_def dec_digits_nonempty parse_digits_dec_digits del: dec_digits.simps)
  with True word_of_nat_sint(2)[OF True] show ?thesis
    by (simp only: printf_ld_def if_True)
next
  case False
  obtain c cs where d: "dec_digits (nat (sint v)) = c # cs"
    using dec_digits_nonempty[of "nat (sint v)"] by (cases "dec_digits (nat (sint v))") auto
  with dec_digits_set[of "nat (sint v)"] have "c \<in> set ''0123456789''"
    by simp
  then have c: "c \<noteq> CHR ''-''"
    by auto
  from parse_digits_dec_digits[of "nat (sint v)"] d
  have "parse_digits 0 (c # cs) = Some (nat (sint v))"
    by (simp only:)
  with c have "parse_ld (c # cs) = Some (of_nat (nat (sint v)))"
    by (simp add: parse_ld_def del: parse_digits.simps)
  with False d word_of_nat_sint(1)[of v] show ?thesis
    by (simp add: printf_ld_def del: dec_digits.simps)
qed

lemma one_line_printf_ld: "one_line (printf_ld v)"
proof -
  have "CHR ''\<newline>'' \<notin> set ''0123456789''"
    by simp
  with dec_digits_set have "CHR ''\<newline>'' \<notin> set (dec_digits n)" for n
    by blast
  then show ?thesis
    by (simp add: one_line_def printf_ld_def)
qed

lemma lines_acc_line:
  "one_line l \<Longrightarrow> lines_acc cur (l @ CHR ''\<newline>'' # rest) = (cur @ l) # lines_acc [] rest"
  by (induction l arbitrary: cur) (auto simp: one_line_def)

lemma lines_of_line: "one_line l \<Longrightarrow> lines_of (l @ CHR ''\<newline>'' # rest) = l # lines_of rest"
  by (simp add: lines_of_def lines_acc_line)

lemma lines_of_empty_line: "lines_of (CHR ''\<newline>'' # rest) = [] # lines_of rest"
  by (simp add: lines_of_def)

lemma lines_of_Nil: "lines_of [] = []"
  by (simp add: lines_of_def)

lemma one_line_header: "one_line h \<Longrightarrow> one_line (''%'' @ h @ ''%'')"
  by (simp add: one_line_def)

lemma lines_of_scalar:
  assumes "one_line h" and "one_line v"
  shows "lines_of (spec_scalar_field h v @ rest) = (''%'' @ h @ ''%'') # v # [] # lines_of rest"
proof -
  have "spec_scalar_field h v @ rest =
      (''%'' @ h @ ''%'') @ CHR ''\<newline>'' # (v @ CHR ''\<newline>'' # (CHR ''\<newline>'' # rest))"
    by (simp add: spec_scalar_field_def)
  then show ?thesis
    using assms
    by (simp only: lines_of_line[OF one_line_header] lines_of_line lines_of_empty_line)
qed

lemma lines_of_items:
  "list_all one_line vs \<Longrightarrow>
   lines_of (concat (map (\<lambda>v. v @ ''\<newline>'') vs) @ rest) = vs @ lines_of rest"
proof (induction vs)
  case Nil
  then show ?case by simp
next
  case (Cons v vs)
  then have "one_line v" and "lines_of (concat (map (\<lambda>v. v @ ''\<newline>'') vs) @ rest) = vs @ lines_of rest"
    by simp_all
  moreover have "concat (map (\<lambda>v. v @ ''\<newline>'') (v # vs)) @ rest =
      v @ CHR ''\<newline>'' # (concat (map (\<lambda>v. v @ ''\<newline>'') vs) @ rest)"
    by simp
  ultimately show ?case
    by (simp only: lines_of_line append_Cons)
qed

lemma lines_of_list:
  assumes "one_line h" and "list_all one_line vs"
  shows "lines_of (spec_list_field h vs @ rest) = (''%'' @ h @ ''%'') # vs @ [] # lines_of rest"
proof -
  have "spec_list_field h vs @ rest =
      (''%'' @ h @ ''%'') @ CHR ''\<newline>'' # (concat (map (\<lambda>v. v @ ''\<newline>'') vs) @ (CHR ''\<newline>'' # rest))"
    by (simp add: spec_list_field_def)
  then show ?thesis
    using assms
    by (simp only: lines_of_line[OF one_line_header] lines_of_items lines_of_empty_line)
qed

lemma takeWhile_items: "[] \<notin> set vs \<Longrightarrow> takeWhile (\<lambda>l. l \<noteq> []) (vs @ [] # rest) = vs"
  by (subst takeWhile_append2) auto

lemma dropWhile_items: "[] \<notin> set vs \<Longrightarrow> dropWhile (\<lambda>l. l \<noteq> []) (vs @ [] # rest) = [] # rest"
  by (subst dropWhile_append2) auto

lemma item_lines_one_line: "item_lines vs \<Longrightarrow> list_all one_line vs"
  by (simp add: item_lines_def list_all_iff)

lemma item_lines_nonempty: "item_lines vs \<Longrightarrow> [] \<notin> set vs"
  by (auto simp: item_lines_def list_all_iff)

lemma one_line_base_name: "one_line path \<Longrightarrow> one_line (spec_base_name path)"
proof -
  have "set (spec_base_name path) \<subseteq> set path"
    unfolding spec_base_name_def using set_takeWhileD[of _ "\<lambda>c. c \<noteq> CHR ''/''" "rev path"] by auto
  then show "one_line path \<Longrightarrow> one_line (spec_base_name path)"
    by (auto simp: one_line_def)
qed


lemma lines_of_scalar_last:
  assumes "one_line h" and "one_line v"
  shows "lines_of (spec_scalar_field h v) = [''%'' @ h @ ''%'', v, []]"
  using lines_of_scalar[OF assms, of "[]"] by (simp add: lines_of_Nil)

lemma lines_of_list_last:
  assumes "one_line h" and "list_all one_line vs"
  shows "lines_of (spec_list_field h vs) = (''%'' @ h @ ''%'') # vs @ [[]]"
  using lines_of_list[OF assms, of "[]"] by (simp add: lines_of_Nil)

lemma one_line_literals:
  "one_line ''FILENAME''" "one_line ''NAME''" "one_line ''VERSION''" "one_line ''DESC''"
  "one_line ''CSIZE''" "one_line ''ISIZE''" "one_line ''MD5SUM''" "one_line ''SHA256SUM''"
  "one_line ''URL''" "one_line ''LICENSE''" "one_line ''ARCH''" "one_line ''BUILDDATE''"
  "one_line ''PACKAGER''" "one_line ''DEPENDS''" "one_line ''CONFLICTS''" "one_line ''PROVIDES''"
  "one_line ''OPTDEPENDS''" "one_line ''MAKEDEPENDS''"
  by (simp_all add: one_line_def)

lemma lines_of_desc:
  assumes "spec_writable sv pkg"
  shows "lines_of (spec_desc_blob sv pkg) =
     [''%FILENAME%'', spec_base_name (filename pkg), [],
      ''%NAME%'', name pkg, [],
      ''%VERSION%'', version pkg, [],
      ''%DESC%'', desc pkg, [],
      ''%CSIZE%'', printf_ld (size_pkg pkg), [],
      ''%ISIZE%'', printf_ld (isize pkg), [],
      ''%MD5SUM%'', alpm_compute_md5sum sv (filename pkg), [],
      ''%SHA256SUM%'', alpm_compute_sha256sum sv (filename pkg), [],
      ''%URL%'', url pkg, [],
      ''%LICENSE%''] @ license pkg @
     [[], ''%ARCH%'', arch pkg, [],
      ''%BUILDDATE%'', printf_ld (builddate pkg), [],
      ''%PACKAGER%'', packager pkg, []]"
  using assms unfolding spec_writable_def spec_desc_blob_def
  by (simp add: lines_of_scalar lines_of_list lines_of_scalar_last one_line_literals
      one_line_base_name one_line_printf_ld item_lines_one_line)

lemma lines_of_depends:
  assumes "spec_writable sv pkg"
  shows "lines_of (spec_depends_blob pkg) =
     ''%DEPENDS%'' # depends pkg @ [] #
     ''%CONFLICTS%'' # conflicts pkg @ [] #
     ''%PROVIDES%'' # provides pkg @ [] #
     ''%OPTDEPENDS%'' # optdepends pkg @ [] #
     ''%MAKEDEPENDS%'' # makedepends pkg @ [[]]"
  using assms unfolding spec_writable_def spec_depends_blob_def
  by (simp add: lines_of_list lines_of_list_last one_line_literals item_lines_one_line)

lemma read_record_written:
  assumes "spec_writable sv pkg"
  shows "read_record (spec_desc_blob sv pkg) (spec_depends_blob pkg) = Some (spec_stored sv pkg)"
proof -
  from assms have items: "[] \<notin> set (license pkg)" "[] \<notin> set (depends pkg)"
    "[] \<notin> set (conflicts pkg)" "[] \<notin> set (provides pkg)" "[] \<notin> set (optdepends pkg)"
    "[] \<notin> set (makedepends pkg)"
    by (simp_all add: spec_writable_def item_lines_nonempty)
  show ?thesis
    unfolding read_record_def lines_of_desc[OF assms] lines_of_depends[OF assms]
    using items
    by (cases pkg)
      (simp add: read_scalar_def read_long_def read_list_def parse_ld_printf_ld takeWhile_items
        dropWhile_items spec_stored_def)
qed

lemma take_entry_path:
  assumes "spec_writable sv pkg"
  shows "take (PATH_MAX - 1) (name pkg @ ''-'' @ version pkg @ ''/desc'') =
      name pkg @ ''-'' @ version pkg @ ''/desc''"
    and "take (PATH_MAX - 1) (name pkg @ ''-'' @ version pkg @ ''/depends'') =
      name pkg @ ''-'' @ version pkg @ ''/depends''"
proof -
  from assms have len: "length (name pkg @ ''-'' @ version pkg @ ''/depends'') < PATH_MAX"
    by (simp only: spec_writable_def)
  then have "length (name pkg @ ''-'' @ version pkg @ ''/depends'') \<le> PATH_MAX - 1"
    by simp
  then show "take (PATH_MAX - 1) (name pkg @ ''-'' @ version pkg @ ''/depends'') =
      name pkg @ ''-'' @ version pkg @ ''/depends''"
    by (rule take_all)
  from len have "length (name pkg @ ''-'' @ version pkg @ ''/desc'') \<le> PATH_MAX - 1"
    by simp
  then show "take (PATH_MAX - 1) (name pkg @ ''-'' @ version pkg @ ''/desc'') =
      name pkg @ ''-'' @ version pkg @ ''/desc''"
    by (rule take_all)
qed

lemma spec_stored_name: "name (spec_stored sv pkg) = name pkg" "version (spec_stored sv pkg) = version pkg"
  by (simp_all add: spec_stored_def)

lemma read_entries_written:
  "list_all (spec_writable sv) idx \<Longrightarrow>
   read_entries (concat (map (spec_entries sv) idx)) = Some (map (spec_stored sv) idx)"
proof (induction idx)
  case Nil
  then show ?case by simp
next
  case (Cons p idx)
  then have p: "spec_writable sv p"
    and rest: "read_entries (concat (map (spec_entries sv) idx)) = Some (map (spec_stored sv) idx)"
    by simp_all
  have "concat (map (spec_entries sv) (p # idx)) =
      (name p @ ''-'' @ version p @ ''/desc'', spec_desc_blob sv p) #
      (name p @ ''-'' @ version p @ ''/depends'', spec_depends_blob p) #
      concat (map (spec_entries sv) idx)"
    unfolding list.map concat.simps spec_entries_def take_entry_path[OF p] by simp
  then show ?case
    by (simp add: read_record_written[OF p] rest spec_stored_name)
qed

lemma pkghash_add_fresh:
  "name p \<notin> name ` set cache \<Longrightarrow> alpm_pkghash_add cache p = cache @ [p]"
proof -
  assume "name p \<notin> name ` set cache"
  then have "\<forall>q \<in> set cache. name q \<noteq> name p"
    by (metis imageI)
  then have "filter (\<lambda>q. name q \<noteq> name p) cache = cache"
    by (rule filter_True)
  then show ?thesis
    by (simp add: alpm_pkghash_add_def)
qed

lemma foldl_pkghash_add:
  "distinct (map name (cache @ ps)) \<Longrightarrow> foldl alpm_pkghash_add cache ps = cache @ ps"
proof (induction ps arbitrary: cache)
  case Nil
  then show ?case by simp
next
  case (Cons p ps)
  then have fresh: "name p \<notin> name ` set cache"
    by auto
  from Cons.prems have "distinct (map name ((cache @ [p]) @ ps))"
    by simp
  from Cons.IH[OF this] fresh show ?case
    by (simp add: pkghash_add_fresh)
qed

lemma populate_written:
  assumes "repopath \<notin> locked w"
    and "list_all (spec_writable sv) idx"
    and "distinct (map name idx)"
  shows "spec_db_populate (files (update_db_write sv repopath (w, idx, True)) repopath) =
     Some (map (spec_stored sv) idx)"
proof -
  have "map name (map (spec_stored sv) idx) = map name idx"
    by (induction idx) (simp_all add: spec_stored_name)
  with assms(3) have "distinct (map name ([] @ map (spec_stored sv) idx))"
    by (simp only: append_Nil)
  from foldl_pkghash_add[OF this] show ?thesis
    by (simp add: update_db_write_files[OF assms(1)] spec_db_populate_def
        read_entries_written[OF assms(2)] alpm_pkghash_create_def)
qed

lemma spec_stored_same:
  "spec_stored sv pkg = pkg \<longleftrightarrow>
     spec_base_name (filename pkg) = filename pkg
     \<and> alpm_compute_md5sum sv (filename pkg) = md5sum pkg
     \<and> alpm_compute_sha256sum sv (filename pkg) = sha256sum pkg"
  by (cases pkg) (simp add: spec_stored_def)

text \<open>
  C3, as the code has it. Take an index whose records have different names and are of the
  kind the text format can carry (no line break inside a field, no empty list item, entry
  paths within \<open>PATH_MAX\<close>; lists may be empty). Writing it with the writer and reading the
  archive back gives the records in the same order, under the same names, every field as it
  was but three: \<open>filename\<close> comes back as the base name of the backing file, \<open>md5sum\<close> and
  \<open>sha256sum\<close> come back as the checksums that the writer computed from the backing file,
  whatever the record had stored. A record comes back unchanged exactly when its file name
  has no directory part and its stored checksums are those of the file.
\<close>

theorem written_index_read_back:
  assumes "repopath \<notin> locked w"
    and "\<forall>pkg \<in> set idx. spec_writable sv pkg"
    and "distinct (map name idx)"
  shows "spec_db_populate (files (update_db_write sv repopath (w, idx, True)) repopath) =
       Some (map (spec_stored sv) idx)
    \<and> map name (map (spec_stored sv) idx) = map name idx
    \<and> spec_stored sv pkg =
        pkg\<lparr>filename := spec_base_name (filename pkg),
            md5sum := alpm_compute_md5sum sv (filename pkg),
            sha256sum := alpm_compute_sha256sum sv (filename pkg)\<rparr>
    \<and> (spec_stored sv pkg = pkg \<longleftrightarrow>
         spec_base_name (filename pkg) = filename pkg
         \<and> alpm_compute_md5sum sv (filename pkg) = md5sum pkg
         \<and> alpm_compute_sha256sum sv (filename pkg) = sha256sum pkg)"
proof -
  from assms(2) have "list_all (spec_writable sv) idx"
    by (simp add: list_all_iff)
  moreover have "map name (map (spec_stored sv) idx) = map name idx"
    by (induction idx) (simp_all add: spec_stored_name)
  ultimately show ?thesis
    using populate_written[OF assms(1) _ assms(3), of sv] spec_stored_same[of sv pkg]
    by (simp only: simp_thms) (simp add: spec_stored_def)
qed

lemma ex_writable:
  "spec_writable (ex_services scan db) (ex_pkg f n v) \<longleftrightarrow>
     one_line f \<and> one_line n \<and> one_line v \<and> length (n @ ''-'' @ v @ ''/depends'') < PATH_MAX"
  by (simp add: spec_writable_def ex_services_def ex_pkg_def one_line_def item_lines_def)

theorem written_index_read_back_witness:
  "''repo.db.tar.gz'' \<notin> locked ex_world
   \<and> spec_writable (ex_services None []) ex_foo_1_1
   \<and> spec_writable (ex_services None []) ex_bar_1_0
   \<and> spec_db_populate (files (update_db_write (ex_services None []) ''repo.db.tar.gz''
        (ex_world, [ex_foo_1_1, ex_bar_1_0], True)) ''repo.db.tar.gz'') =
       Some [ex_foo_1_1\<lparr>filename := ''foo-1.1-1-any.pkg.tar.xz''\<rparr>,
             ex_bar_1_0\<lparr>filename := ''bar-1.0-1-any.pkg.tar.xz''\<rparr>]"
proof -
  let ?sv = "ex_services None []"
  have a: "''repo.db.tar.gz'' \<notin> locked ex_world"
    by (simp add: ex_world_def)
  have w1: "spec_writable ?sv ex_foo_1_1" and w2: "spec_writable ?sv ex_bar_1_0"
    unfolding ex_foo_1_1_def ex_bar_1_0_def ex_writable
    by (simp_all add: one_line_def PATH_MAX_def)
  then have b: "\<forall>pkg \<in> set [ex_foo_1_1, ex_bar_1_0]. spec_writable ?sv pkg"
    by simp
  have c: "distinct (map name [ex_foo_1_1, ex_bar_1_0])"
    by (simp add: ex_foo_1_1_def ex_bar_1_0_def ex_pkg_def)
  have s1: "spec_stored ?sv ex_foo_1_1 = ex_foo_1_1\<lparr>filename := ''foo-1.1-1-any.pkg.tar.xz''\<rparr>"
    and s2: "spec_stored ?sv ex_bar_1_0 = ex_bar_1_0\<lparr>filename := ''bar-1.0-1-any.pkg.tar.xz''\<rparr>"
    by (simp_all add: spec_stored_def spec_base_name_def ex_services_def ex_foo_1_1_def
        ex_bar_1_0_def ex_pkg_def)
  from written_index_read_back[OF a b c] a w1 w2 s1 s2 show ?thesis
    by simp
qed

text \<open>
  C3 as stated fails. The writer does not look at the stored checksums: the record of \<open>foo\<close>
  with both checksums wrong gives the very archive that the record with the right ones
  gives, and it is read back with the base name of its file and the recomputed checksums.
  A list item with a line break in it is written as two items.
\<close>

theorem round_trip_counterexample:
  "update_db_write (ex_services None []) ''repo.db.tar.gz'' (ex_world, [ex_foo_corrupt], True) =
     update_db_write (ex_services None []) ''repo.db.tar.gz'' (ex_world, [ex_foo_1_0], True)
   \<and> md5sum ex_foo_corrupt \<noteq> md5sum ex_foo_1_0
   \<and> spec_db_populate (files (update_db_write (ex_services None []) ''repo.db.tar.gz''
        (ex_world, [ex_foo_corrupt], True)) ''repo.db.tar.gz'') =
       Some [ex_foo_corrupt\<lparr>filename := ''foo-1.0-1-any.pkg.tar.xz'', md5sum := ''0cc175b9'',
               sha256sum := ''ca978112''\<rparr>]
   \<and> filename ex_foo_corrupt = ''pkgs/foo-1.0-1-any.pkg.tar.xz''
   \<and> md5sum ex_foo_corrupt = ''ffffffff''
   \<and> sha256sum ex_foo_corrupt = ''ffffffff''
   \<and> update_db_write (ex_services None []) ''repo.db.tar.gz'' (ex_world, [ex_foo_one_item], True) =
       update_db_write (ex_services None []) ''repo.db.tar.gz'' (ex_world, [ex_foo_1_0], True)
   \<and> license ex_foo_one_item \<noteq> license ex_foo_1_0"
proof -
  let ?sv = "ex_services None []"
  have same: "update_db_write ?sv ''repo.db.tar.gz'' (ex_world, [ex_foo_corrupt], True) =
     update_db_write ?sv ''repo.db.tar.gz'' (ex_world, [ex_foo_1_0], True)"
    by (simp add: update_db_write_def Let_def repo_write_pkg_def repo_write_new_def
        write_desc_file_eq write_depends_file_eq spec_desc_blob_def spec_depends_blob_def
        ex_foo_corrupt_def del: format.simps)
  have same': "update_db_write ?sv ''repo.db.tar.gz'' (ex_world, [ex_foo_one_item], True) =
     update_db_write ?sv ''repo.db.tar.gz'' (ex_world, [ex_foo_1_0], True)"
    by (simp add: update_db_write_def Let_def repo_write_pkg_def repo_write_new_def
        write_desc_file_eq write_depends_file_eq spec_desc_blob_def spec_depends_blob_def
        spec_list_field_def ex_foo_one_item_def ex_foo_1_0_def ex_pkg_def del: format.simps)
  have a: "''repo.db.tar.gz'' \<notin> locked ex_world"
    by (simp add: ex_world_def)
  have "spec_writable ?sv ex_foo_1_0"
    unfolding ex_foo_1_0_def ex_writable by (simp add: one_line_def PATH_MAX_def)
  then have b: "list_all (spec_writable ?sv) [ex_foo_corrupt]"
    by (simp add: spec_writable_def ex_foo_corrupt_def)
  have c: "distinct (map name [ex_foo_corrupt])"
    by simp
  have s: "spec_stored ?sv ex_foo_corrupt =
      ex_foo_corrupt\<lparr>filename := ''foo-1.0-1-any.pkg.tar.xz'', md5sum := ''0cc175b9'',
               sha256sum := ''ca978112''\<rparr>"
    by (simp add: spec_stored_def spec_base_name_def ex_services_def ex_foo_corrupt_def
        ex_foo_1_0_def ex_pkg_def)
  from populate_written[OF a b c] same same' s show ?thesis
    by (simp add: ex_foo_corrupt_def ex_foo_one_item_def ex_foo_1_0_def ex_pkg_def)
qed

end
